theory Spec2Isabelle
  imports Main
begin

section \<open>The RAML / OpenAPI importer of bruno, as a shallow embedding\<close>

text \<open>
  The source file \<^verbatim>\<open>RequestHeaders/index.js\<close> holds three concatenated modules: a React
  table component (lines 1-97), an earlier revision of the RAML importer (lines 97-333,
  whose \<^verbatim>\<open>createBrunoRequest\<close> also builds the request body) and the later revision
  (lines 334-849, which adds the OpenAPI helpers). Functions of the later revision keep
  their names; functions of the earlier revision carry the suffix \<open>_v1\<close>.

  The importer works on the document tree that the YAML parser returns and builds plain
  JavaScript objects. Both are values of type \<open>jsval\<close>. An object is the list of its own
  enumerable properties in enumeration order, which is what \<^verbatim>\<open>Object.entries\<close> and
  \<^verbatim>\<open>Object.keys\<close> return. Strings are byte strings and case mapping is the ASCII one
  (every HTTP method name is ASCII). Numbers are the integers of absolute value below
  \<open>10^21\<close>, which JavaScript prints in decimal; fractions and larger numbers are outside
  the model.

  A value has no functions among its properties. A read with one of the fixed names of
  the source (\<^verbatim>\<open>description\<close>, \<^verbatim>\<open>required\<close>, ...) finds own properties, and \<^verbatim>\<open>length\<close> and
  the indices of arrays and strings: none of these names is a member of a built-in
  prototype. Where the name comes from the document, a read can find a member that the
  object inherits (\<^verbatim>\<open>constructor\<close>, \<^verbatim>\<open>toString\<close>, ...). The grouping by tags and the
  resolution of references take these members into account. The two reads
  \<^verbatim>\<open>bodyModeMapping[mediaType]\<close> and \<^verbatim>\<open>securitySchemes[schemeName]\<close> do not: for a name
  that is inherited and not own, the code reads a built-in function, where the model
  reads \<^verbatim>\<open>undefined\<close>.
\<close>

subsection \<open>JavaScript values\<close>

datatype jsval =
    JUndef
  | JNull
  | JBool bool
  | JNum int
  | JStr string
  | JArr "jsval list"
  | JObj "(string \<times> jsval) list"

text \<open>The only exception the transformations can raise by themselves.\<close>

datatype exn = TypeError

text \<open>ToBoolean: \<^verbatim>\<open>undefined\<close>, \<^verbatim>\<open>null\<close>, \<^verbatim>\<open>false\<close>, \<^verbatim>\<open>0\<close> and \<^verbatim>\<open>''\<close> are falsy.\<close>

fun truthy :: "jsval \<Rightarrow> bool" where
  "truthy JUndef = False"
| "truthy JNull = False"
| "truthy (JBool b) = b"
| "truthy (JNum i) = (i \<noteq> 0)"
| "truthy (JStr s) = (s \<noteq> [])"
| "truthy (JArr xs) = True"
| "truthy (JObj kvs) = True"

text \<open>\<^verbatim>\<open>a || b\<close> on values already computed (every right operand in the source is pure).\<close>

definition js_or :: "jsval \<Rightarrow> jsval \<Rightarrow> jsval" where
  "js_or a b = (if truthy a then a else b)"

subsection \<open>Numbers and strings\<close>

definition digit_char :: "nat \<Rightarrow> char" where
  "digit_char d = ''0123456789'' ! d"

fun show_nat :: "nat \<Rightarrow> string" where
  "show_nat n = (if n < 10 then [digit_char n] else show_nat (n div 10) @ [digit_char (n mod 10)])"

declare show_nat.simps [simp del]

definition show_int :: "int \<Rightarrow> string" where
  "show_int i = (if i < 0 then CHR ''-'' # show_nat (nat (- i)) else show_nat (nat i))"

definition is_digit :: "char \<Rightarrow> bool" where
  "is_digit c = (48 \<le> (of_char c :: nat) \<and> (of_char c :: nat) \<le> 57)"

definition digit_val :: "char \<Rightarrow> nat" where
  "digit_val c = of_char c - 48"

definition read_nat :: "string \<Rightarrow> nat" where
  "read_nat s = foldl (\<lambda>acc c. 10 * acc + digit_val c) 0 s"

text \<open>
  A canonical array index: the decimal form, without leading zeros, of an integer below
  \<open>2^32 - 1\<close>. Such keys of an object enumerate first, in ascending numeric order.
\<close>

definition is_array_index :: "string \<Rightarrow> bool" where
  "is_array_index s =
     (s \<noteq> [] \<and> list_all is_digit s \<and> (hd s \<noteq> CHR ''0'' \<or> length s = 1)
      \<and> read_nat s < 4294967295)"

definition toUpperChar :: "char \<Rightarrow> char" where
  "toUpperChar c =
     (case map_of (zip ''abcdefghijklmnopqrstuvwxyz'' ''ABCDEFGHIJKLMNOPQRSTUVWXYZ'') c of
        Some u \<Rightarrow> u | None \<Rightarrow> c)"

definition toLowerChar :: "char \<Rightarrow> char" where
  "toLowerChar c =
     (case map_of (zip ''ABCDEFGHIJKLMNOPQRSTUVWXYZ'' ''abcdefghijklmnopqrstuvwxyz'') c of
        Some l \<Rightarrow> l | None \<Rightarrow> c)"

definition toUpperCase :: "string \<Rightarrow> string" where
  "toUpperCase s = map toUpperChar s"

definition toLowerCase :: "string \<Rightarrow> string" where
  "toLowerCase s = map toLowerChar s"

definition startsWith :: "string \<Rightarrow> string \<Rightarrow> bool" where
  "startsWith s p = (take (length p) s = p)"

text \<open>\<^verbatim>\<open>s.replaceAll(c, r)\<close> for a pattern \<open>c\<close> of one character.\<close>

definition replaceAll :: "char \<Rightarrow> string \<Rightarrow> string \<Rightarrow> string" where
  "replaceAll c r s = concat (map (\<lambda>x. if x = c then r else [x]) s)"

definition is_space :: "char \<Rightarrow> bool" where
  "is_space c = ((of_char c :: nat) = 32 \<or> (9 \<le> (of_char c :: nat) \<and> (of_char c :: nat) \<le> 13))"

definition trim :: "string \<Rightarrow> string" where
  "trim s = rev (dropWhile is_space (rev (dropWhile is_space s)))"

text \<open>\<^verbatim>\<open>s.split(c)\<close>: the pieces between the separators; the empty string gives one empty piece.\<close>

fun split_acc :: "char \<Rightarrow> string \<Rightarrow> string \<Rightarrow> string list" where
  "split_acc c cur [] = [rev cur]"
| "split_acc c cur (x # xs) =
     (if x = c then rev cur # split_acc c [] xs else split_acc c (x # cur) xs)"

definition split :: "char \<Rightarrow> string \<Rightarrow> string list" where
  "split c s = split_acc c [] s"

text \<open>ToString, as string concatenation, template literals and computed property keys use it.\<close>

fun join_with :: "string \<Rightarrow> string list \<Rightarrow> string" where
  "join_with sep [] = []"
| "join_with sep [x] = x"
| "join_with sep (x # y # ys) = x @ sep @ join_with sep (y # ys)"

fun toString :: "jsval \<Rightarrow> string" where
  "toString JUndef = ''undefined''"
| "toString JNull = ''null''"
| "toString (JBool b) = (if b then ''true'' else ''false'')"
| "toString (JNum i) = show_int i"
| "toString (JStr s) = s"
| "toString (JArr xs) =
     join_with '','' (map (\<lambda>x. if x = JUndef \<or> x = JNull then [] else toString x) xs)"
| "toString (JObj kvs) = ''[object Object]''"

subsection \<open>Property access and enumeration\<close>

fun indexed_from :: "nat \<Rightarrow> 'a list \<Rightarrow> (nat \<times> 'a) list" where
  "indexed_from i [] = []"
| "indexed_from i (x # xs) = (i, x) # indexed_from (Suc i) xs"

text \<open>\<^verbatim>\<open>o[k]\<close> and \<^verbatim>\<open>o.k\<close>: reading a property of \<^verbatim>\<open>null\<close> or \<^verbatim>\<open>undefined\<close> throws.\<close>

fun get_prop :: "jsval \<Rightarrow> string \<Rightarrow> exn + jsval" where
  "get_prop JUndef k = Inl TypeError"
| "get_prop JNull k = Inl TypeError"
| "get_prop (JObj kvs) k = Inr (case map_of kvs k of Some v \<Rightarrow> v | None \<Rightarrow> JUndef)"
| "get_prop (JArr xs) k =
     Inr (if k = ''length'' then JNum (int (length xs))
          else if is_array_index k \<and> read_nat k < length xs then xs ! read_nat k
          else JUndef)"
| "get_prop (JStr s) k =
     Inr (if k = ''length'' then JNum (int (length s))
          else if is_array_index k \<and> read_nat k < length s then JStr [s ! read_nat k]
          else JUndef)"
| "get_prop (JBool b) k = Inr JUndef"
| "get_prop (JNum i) k = Inr JUndef"

text \<open>\<^verbatim>\<open>Object.entries(o)\<close> and \<^verbatim>\<open>Object.keys(o)\<close>.\<close>

fun entries :: "jsval \<Rightarrow> exn + (string \<times> jsval) list" where
  "entries JUndef = Inl TypeError"
| "entries JNull = Inl TypeError"
| "entries (JObj kvs) = Inr kvs"
| "entries (JArr xs) = Inr (map (\<lambda>(i, x). (show_nat i, x)) (indexed_from 0 xs))"
| "entries (JStr s) = Inr (map (\<lambda>(i, c). (show_nat i, JStr [c])) (indexed_from 0 s))"
| "entries (JBool b) = Inr []"
| "entries (JNum i) = Inr []"

definition keys :: "jsval \<Rightarrow> exn + string list" where
  "keys v = (case entries v of Inl e \<Rightarrow> Inl e | Inr kvs \<Rightarrow> Inr (map fst kvs))"

text \<open>
  The members that every object inherits from \<^verbatim>\<open>Object.prototype\<close>. Each of them is a
  function, except \<^verbatim>\<open>__proto__\<close>, which reads as the prototype object; all are truthy.
\<close>

definition object_members :: "string list" where
  "object_members =
     [''constructor'', ''__defineGetter__'', ''__defineSetter__'', ''hasOwnProperty'',
      ''__lookupGetter__'', ''__lookupSetter__'', ''isPrototypeOf'', ''propertyIsEnumerable'',
      ''toString'', ''valueOf'', ''__proto__'', ''toLocaleString'']"

text \<open>
  \<^verbatim>\<open>o[k] = v\<close> on an object the code itself created: an existing key keeps its place, a new
  array index goes among the index keys in numeric order, any other new key goes last.
  An assignment to \<^verbatim>\<open>__proto__\<close>, when that is not an own property, goes to the setter
  that the object inherits and adds no property.
\<close>

fun insert_index :: "string \<Rightarrow> 'v \<Rightarrow> (string \<times> 'v) list \<Rightarrow> (string \<times> 'v) list" where
  "insert_index k v [] = [(k, v)]"
| "insert_index k v ((k', v') # rest) =
     (if is_array_index k' \<and> read_nat k' < read_nat k
      then (k', v') # insert_index k v rest
      else (k, v) # (k', v') # rest)"

definition obj_set :: "(string \<times> 'v) list \<Rightarrow> string \<Rightarrow> 'v \<Rightarrow> (string \<times> 'v) list" where
  "obj_set kvs k v =
     (if k \<in> set (map fst kvs) then map (\<lambda>(k', v'). if k' = k then (k', v) else (k', v')) kvs
      else if k = ''__proto__'' then kvs
      else if is_array_index k then insert_index k v kvs
      else kvs @ [(k, v)])"

text \<open>Reading a property of an object that is known to be one (no exception possible).\<close>

definition field :: "jsval \<Rightarrow> string \<Rightarrow> jsval" where
  "field v k = (case v of JObj kvs \<Rightarrow> (case map_of kvs k of Some x \<Rightarrow> x | None \<Rightarrow> JUndef)
                | _ \<Rightarrow> JUndef)"

subsection \<open>The unique-id generator\<close>

text \<open>
  \<^verbatim>\<open>uuid()\<close> is imported from \<^verbatim>\<open>utils/common\<close>. The model takes the sequence \<open>g\<close> of the
  values it returns and threads the number of calls made so far.
\<close>

definition uuid :: "(nat \<Rightarrow> string) \<Rightarrow> nat \<Rightarrow> jsval \<times> nat" where
  "uuid g n = (JStr (g n), Suc n)"

text \<open>A loop body run over a list, threading the call counter and stopping at the first exception.\<close>

fun mapM :: "('a \<Rightarrow> nat \<Rightarrow> exn + 'b \<times> nat) \<Rightarrow> 'a list \<Rightarrow> nat \<Rightarrow> exn + 'b list \<times> nat" where
  "mapM f [] n = Inr ([], n)"
| "mapM f (x # xs) n =
     (case f x n of Inl e \<Rightarrow> Inl e
      | Inr (y, n1) \<Rightarrow>
          (case mapM f xs n1 of Inl e \<Rightarrow> Inl e | Inr (ys, n2) \<Rightarrow> Inr (y # ys, n2)))"

lemma mapM_cong [fundef_cong]:
  assumes "xs = ys" and "n = m" and "\<And>x k. x \<in> set ys \<Longrightarrow> f x k = h x k"
  shows "mapM f xs n = mapM h ys m"
  using assms(3) unfolding assms(1,2)
proof (induction ys arbitrary: m)
  case Nil
  show ?case by simp
next
  case (Cons y ys)
  have "mapM f ys k = mapM h ys k" for k
    using Cons by simp
  moreover have "f y m = h y m"
    using Cons.prems by simp
  ultimately show ?case
    by (simp split: sum.splits prod.splits)
qed

text \<open>
  A step that may throw, followed by the rest of the computation: the rest runs on the
  value of the step, and an exception of the step is the exception of the whole.
\<close>

fun and_then :: "'e + 'a \<Rightarrow> ('a \<Rightarrow> 'e + 'b) \<Rightarrow> 'e + 'b" where
  "and_then (Inl err) rest = Inl err"
| "and_then (Inr x) rest = rest x"

lemma and_then_cong [fundef_cong]:
  assumes "m = m'" and "\<And>x. m' = Inr x \<Longrightarrow> f x = h x"
  shows "and_then m f = and_then m' h"
  using assms by (cases m') simp_all

lemma and_then_eq_Inr:
  "and_then m f = Inr y \<longleftrightarrow> (\<exists>x. m = Inr x \<and> f x = Inr y)"
  by (cases m) simp_all

subsection \<open>Conversions that may throw\<close>

text \<open>
  ToString of any value, as string concatenation and computed property keys apply it. An
  object is converted by the method \<^verbatim>\<open>toString\<close> it inherits, which gives
  \<^verbatim>\<open>[object Object]\<close>; an object of the document with an own property \<^verbatim>\<open>toString\<close> has
  no such method (the property is not a function), and the conversion throws. An array
  joins the conversions of its elements. On every other value it is \<open>toString\<close>.
\<close>

fun to_string :: "jsval \<Rightarrow> exn + string"
  and to_strings :: "jsval list \<Rightarrow> exn + string list" where
  "to_string (JObj kvs) =
     (if ''toString'' \<in> set (map fst kvs) then Inl TypeError else Inr ''[object Object]'')"
| "to_string (JArr xs) = and_then (to_strings xs) (\<lambda>parts. Inr (join_with '','' parts))"
| "to_string JUndef = Inr ''undefined''"
| "to_string JNull = Inr ''null''"
| "to_string (JBool b) = Inr (toString (JBool b))"
| "to_string (JNum i) = Inr (toString (JNum i))"
| "to_string (JStr s) = Inr s"
| "to_strings [] = Inr []"
| "to_strings (x # xs) =
     and_then (if x = JUndef \<or> x = JNull then Inr [] else to_string x) (\<lambda>part.
     and_then (to_strings xs) (\<lambda>parts. Inr (part # parts)))"

text \<open>
  Whether the number that a string converts to is greater than zero. The string is
  trimmed; the empty string is zero; \<^verbatim>\<open>0x\<close>, \<^verbatim>\<open>0o\<close> and \<^verbatim>\<open>0b\<close> start a hexadecimal, octal or
  binary integer without sign; anything else is a decimal literal with an optional sign,
  fraction and exponent, or \<^verbatim>\<open>Infinity\<close>. A string of another form converts to \<^verbatim>\<open>NaN\<close>,
  which is not greater than zero. A decimal with the digits \<open>m\<close> and the decimal exponent
  \<open>x\<close> converts to a number greater than zero when \<open>m * 10^x\<close> is above \<open>2^-1075\<close>, half
  of the least positive number.
\<close>

definition radix_positive :: "string \<Rightarrow> string \<Rightarrow> bool" where
  "radix_positive digits s =
     (s \<noteq> [] \<and> list_all (\<lambda>c. c \<in> set digits) s \<and> \<not> list_all (\<lambda>c. c = CHR ''0'') s)"

definition exponent_of :: "string \<Rightarrow> int option" where
  "exponent_of r =
     (if r = [] then Some 0
      else if hd r = CHR ''e'' \<or> hd r = CHR ''E'' then
        (let d = tl r;
             negative = (d \<noteq> [] \<and> hd d = CHR ''-'');
             ds = (if d \<noteq> [] \<and> (hd d = CHR ''-'' \<or> hd d = CHR ''+'') then tl d else d)
         in if ds \<noteq> [] \<and> list_all is_digit ds
            then Some (if negative then - int (read_nat ds) else int (read_nat ds))
            else None)
      else None)"

definition decimal_positive :: "string \<Rightarrow> bool" where
  "decimal_positive u =
     (if u = ''Infinity'' then True
      else
        (let ip = takeWhile is_digit u;
             r1 = dropWhile is_digit u;
             dot = (r1 \<noteq> [] \<and> hd r1 = CHR ''.'');
             fp = (if dot then takeWhile is_digit (tl r1) else []);
             r2 = (if dot then dropWhile is_digit (tl r1) else r1)
         in if ip = [] \<and> fp = [] then False
            else (case exponent_of r2 of
                    None \<Rightarrow> False
                  | Some e \<Rightarrow>
                      (let m = read_nat (ip @ fp); x = e - int (length fp)
                       in if 0 \<le> x then 0 < m else 10 ^ nat (- x) < m * 2 ^ 1075))))"

definition string_positive :: "string \<Rightarrow> bool" where
  "string_positive s =
     (let t = trim s in
      if t = [] then False
      else if startsWith t ''0x'' \<or> startsWith t ''0X''
      then radix_positive ''0123456789abcdefABCDEF'' (drop 2 t)
      else if startsWith t ''0o'' \<or> startsWith t ''0O'' then radix_positive ''01234567'' (drop 2 t)
      else if startsWith t ''0b'' \<or> startsWith t ''0B'' then radix_positive ''01'' (drop 2 t)
      else if hd t = CHR ''-'' then False
      else if hd t = CHR ''+'' then decimal_positive (tl t)
      else decimal_positive t)"

text \<open>
  \<^verbatim>\<open>x > 0\<close>: a number compares as it is, a boolean as 0 or 1, \<^verbatim>\<open>null\<close> as 0, a string as the
  number it converts to, an array or object as the number its string converts to;
  \<^verbatim>\<open>undefined\<close> converts to \<^verbatim>\<open>NaN\<close>.
\<close>

fun js_gt0 :: "jsval \<Rightarrow> exn + bool" where
  "js_gt0 JUndef = Inr False"
| "js_gt0 JNull = Inr False"
| "js_gt0 (JBool b) = Inr b"
| "js_gt0 (JNum i) = Inr (0 < i)"
| "js_gt0 (JStr s) = Inr (string_positive s)"
| "js_gt0 v = and_then (to_string v) (\<lambda>s. Inr (string_positive s))"

subsection \<open>String helpers of the importer\<close>

text \<open>
  \<^verbatim>\<open>url.replace(/([^:]\/)\/+/g, '$1')\<close>: scanning from the left, a character other than a
  colon followed by two or more slashes keeps one slash; the scan goes on after the run.
\<close>

function ensureUrl :: "string \<Rightarrow> string" where
  "ensureUrl (c # d # e # rest) =
     (if c \<noteq> CHR '':'' \<and> d = CHR ''/'' \<and> e = CHR ''/''
      then c # CHR ''/'' # ensureUrl (dropWhile (\<lambda>x. x = CHR ''/'') rest)
      else c # ensureUrl (d # e # rest))"
| "ensureUrl [c, d] = [c, d]"
| "ensureUrl [c] = [c]"
| "ensureUrl [] = []"
  by pat_completeness auto
termination
  by (relation "measure length") (auto simp: length_dropWhile_le le_imp_less_Suc less_Suc_eq_le le_SucI)

definition ensureUriParameter :: "string \<Rightarrow> string" where
  "ensureUriParameter uriParam = replaceAll CHR ''}'' ''}}'' (replaceAll CHR ''{'' ''{{'' uriParam)"

definition extractUriParameters :: "(nat \<Rightarrow> string) \<Rightarrow> string \<Rightarrow> nat \<Rightarrow> exn + jsval list \<times> nat" where
  "extractUriParameters g path n =
     mapM (\<lambda>s k. let (uid, k1) = uuid g k in
             Inr (JObj [(''uid'', uid), (''name'', JStr s), (''value'', JStr []),
                        (''local'', JBool False), (''enabled'', JBool True)], k1))
       (filter (\<lambda>s. s \<noteq> ''{{baseUri}}'') (filter (\<lambda>s. startsWith s ''{'') (split CHR ''/'' path))) n"

definition buildApiName :: "string \<Rightarrow> string \<Rightarrow> string" where
  "buildApiName method path =
     toUpperCase method @ '' '' @
     trim (replaceAll CHR ''}'' '' '' (replaceAll CHR ''{'' '' '' (replaceAll CHR ''/'' '' '' path)))"

subsection \<open>The RAML walker (later revision, lines 405-506 and 750-832)\<close>

definition auth_none :: jsval where
  "auth_none = JObj [(''mode'', JStr ''none''), (''basic'', JNull), (''bearer'', JNull), (''digest'', JNull)]"

definition body_none :: "(string \<times> jsval) list" where
  "body_none = [(''mode'', JStr ''none''), (''json'', JNull), (''text'', JNull), (''xml'', JNull),
                (''formUrlEncoded'', JArr []), (''multipartForm'', JArr [])]"

text \<open>The two loops of \<^verbatim>\<open>createBrunoRequest\<close> that push one field per declared parameter or header.\<close>

definition queryParameter_fields ::
  "(nat \<Rightarrow> string) \<Rightarrow> (string \<times> jsval) list \<Rightarrow> nat \<Rightarrow> exn + jsval list \<times> nat" where
  "queryParameter_fields g kvs n =
     mapM (\<lambda>(param, paramProperties) k.
         let (uid, k1) = uuid g k in
         and_then (get_prop paramProperties ''description'') (\<lambda>description.
         and_then (get_prop paramProperties ''required'') (\<lambda>required.
         Inr (JObj [(''uid'', uid), (''name'', JStr param), (''value'', JStr []),
                    (''description'', js_or description (JStr [])),
                    (''enabled'', required)], k1)))) kvs n"

definition header_fields ::
  "(nat \<Rightarrow> string) \<Rightarrow> (string \<times> jsval) list \<Rightarrow> nat \<Rightarrow> exn + jsval list \<times> nat" where
  "header_fields g kvs n =
     mapM (\<lambda>(header, headerProperties) k.
         let (uid, k1) = uuid g k in
         and_then (get_prop headerProperties ''example'') (\<lambda>example.
         and_then (get_prop headerProperties ''description'') (\<lambda>description.
         and_then (get_prop headerProperties ''required'') (\<lambda>required.
         Inr (JObj [(''uid'', uid), (''name'', JStr header),
                    (''value'', js_or example (JStr [])),
                    (''description'', js_or description (JStr [])),
                    (''enabled'', required)], k1))))) kvs n"

definition createBrunoRequest ::
  "(nat \<Rightarrow> string) \<Rightarrow> string \<Rightarrow> jsval \<Rightarrow> string \<Rightarrow> jsval \<Rightarrow> nat \<Rightarrow> exn + jsval \<times> nat" where
  "createBrunoRequest g method baseUri path properties n =
     (let (uid, n1) = uuid g n in
      and_then (get_prop properties ''displayName'') (\<lambda>displayName.
      and_then (extractUriParameters g path n1) (\<lambda>(req, n2).
      and_then (get_prop properties ''description'') (\<lambda>description.
      and_then (get_prop properties ''queryParameters'') (\<lambda>queryParameters.
      and_then (entries (js_or queryParameters (JObj []))) (\<lambda>qs.
      and_then (queryParameter_fields g qs n2) (\<lambda>(params, n3).
      and_then (get_prop properties ''headers'') (\<lambda>headers.
      and_then (entries (js_or headers (JObj []))) (\<lambda>hs.
      and_then (header_fields g hs n3) (\<lambda>(hdrs, n4).
      Inr (JObj [(''uid'', uid),
                 (''name'', js_or displayName (JStr (buildApiName method path))),
                 (''type'', JStr ''http-request''),
                 (''request'', JObj [
                    (''url'', JStr (ensureUrl (toString baseUri @ ''/'' @ path))),
                    (''method'', JStr (toUpperCase method)),
                    (''auth'', auth_none),
                    (''headers'', JArr hdrs),
                    (''params'', JArr params),
                    (''vars'', JObj [(''req'', JArr req)]),
                    (''body'', JObj body_none),
                    (''docs'', js_or description (JStr []))])], n4)))))))))))"

definition createBrunoFolder :: "(nat \<Rightarrow> string) \<Rightarrow> string \<Rightarrow> nat \<Rightarrow> jsval \<times> nat" where
  "createBrunoFolder g path n =
     (let (uid, n1) = uuid g n in
      (JObj [(''uid'', uid), (''name'', JStr (replaceAll CHR ''/'' '' '' path)),
             (''type'', JStr ''folder''), (''items'', JArr [])], n1))"

definition methods :: "string list" where
  "methods = [''get'', ''patch'', ''post'', ''delete'', ''put'', ''options'', ''head'', ''trace'']"

text \<open>\<^verbatim>\<open>acc.concat(val)\<close>: an array argument is spread, any other value is appended.\<close>

definition js_concat :: "jsval list \<Rightarrow> jsval \<Rightarrow> jsval list" where
  "js_concat acc val = (case val of JArr xs \<Rightarrow> acc @ xs | _ \<Rightarrow> acc @ [val])"

text \<open>\<^verbatim>\<open>o.k = v\<close> on an object.\<close>

definition set_prop :: "jsval \<Rightarrow> string \<Rightarrow> jsval \<Rightarrow> jsval" where
  "set_prop v k x = (case v of JObj kvs \<Rightarrow> JObj (obj_set kvs k x) | _ \<Rightarrow> v)"

lemma show_nat_not_slash: "\<not> startsWith (show_nat n) ''/''"
proof (induction n rule: show_nat.induct)
  case (1 n)
  show ?case
  proof (cases "n < 10")
    case True
    then have "n \<in> {0, 1, 2, 3, 4, 5, 6, 7, 8, 9}" by auto
    then show ?thesis
      by (auto simp: show_nat.simps [of n] startsWith_def digit_char_def)
  next
    case False
    with 1 have "take 1 (show_nat (n div 10)) \<noteq> ''/''"
      by (simp add: startsWith_def)
    then have "show_nat (n div 10) \<noteq> [] \<Longrightarrow> ?thesis"
      using False by (cases "show_nat (n div 10)") (simp_all add: show_nat.simps [of n] startsWith_def)
    moreover have "show_nat m \<noteq> []" for m
      by (subst show_nat.simps) simp
    ultimately show ?thesis by blast
  qed
qed

lemma entries_smaller:
  assumes "entries e = Inr kvs" and "(k, v) \<in> set kvs" and "startsWith k ''/''"
  shows "size v < size e"
proof (cases e)
  case (JObj xs)
  with assms have "(k, v) \<in> set xs" by simp
  then have "size v < Suc (size_list (size_prod (\<lambda>_. 0) size) xs)"
    by (induction xs) auto
  with JObj show ?thesis by simp
next
  case (JArr xs)
  with assms obtain i where "k = show_nat i" by auto
  with assms(3) show ?thesis by (simp add: show_nat_not_slash)
next
  case (JStr s)
  with assms obtain i where "k = show_nat i" by auto
  with assms(3) show ?thesis by (simp add: show_nat_not_slash)
qed (use assms in simp_all)

function transformRamlNode ::
  "(nat \<Rightarrow> string) \<Rightarrow> jsval \<Rightarrow> jsval \<Rightarrow> string \<Rightarrow> jsval \<Rightarrow> nat \<Rightarrow> exn + jsval \<times> nat" where
  "transformRamlNode g ents baseUri basePath currentFolder n =
     and_then (entries ents) (\<lambda>kvs.
     and_then (mapM (\<lambda>(key, val) k.
               if toLowerCase key \<in> set methods
               then createBrunoRequest g key baseUri basePath (js_or val (JObj [])) k
               else if startsWith key ''/''
               then (let (folder, k1) = createBrunoFolder g key k in
                     transformRamlNode g val baseUri (basePath @ ensureUriParameter key) folder k1)
               else Inr (JArr [], k)) kvs n) (\<lambda>(results, n1).
     let brunoEntries = foldl js_concat [] results in
     if truthy currentFolder
     then Inr (set_prop currentFolder ''items'' (JArr brunoEntries), n1)
     else Inr (JArr brunoEntries, n1)))"
  by pat_completeness auto
termination
proof (relation "measure (\<lambda>(g, ents, baseUri, basePath, currentFolder, n). size ents)")
  show "wf (measure (\<lambda>(g, ents, baseUri, basePath, currentFolder, n). size ents))"
    by simp
next
  fix g :: "nat \<Rightarrow> string" and ents baseUri :: jsval and basePath :: string
    and currentFolder :: jsval and n :: nat and x :: "(string \<times> jsval) list"
    and xa :: "string \<times> jsval" and xb :: nat and xc :: string and y :: jsval
    and xd :: "jsval \<times> nat" and xe :: jsval and ya :: nat
  assume "entries ents = Inr x" and "xa \<in> set x" and "(xc, y) = xa"
    and "startsWith xc ''/''"
  then have "size y < size ents"
    using entries_smaller [of ents x xc y] by simp
  then show "((g, y, baseUri, basePath @ ensureUriParameter xc, xe, ya),
              (g, ents, baseUri, basePath, currentFolder, n))
             \<in> measure (\<lambda>(g, ents, baseUri, basePath, currentFolder, n). size ents)"
    by simp
qed

declare transformRamlNode.simps [simp del]

text \<open>
  What a promise of the importer rejects with: a \<^verbatim>\<open>BrunoError\<close> carrying its message, or
  any other reason, which comes from a collaborator outside this file. Such a reason is
  given as the value that a read of its properties finds: an error object as an object
  with the property \<^verbatim>\<open>message\<close>, and \<^verbatim>\<open>null\<close> or \<^verbatim>\<open>undefined\<close> as themselves.
\<close>

datatype error = BrunoError string | ExternalError jsval

text \<open>The promise of \<^verbatim>\<open>parseRamlCollection\<close>: \<open>Inr\<close> when it resolves, \<open>Inl\<close> when it rejects.\<close>

definition parseRamlCollection :: "(nat \<Rightarrow> string) \<Rightarrow> jsval \<Rightarrow> nat \<Rightarrow> error + jsval \<times> nat" where
  "parseRamlCollection g data n =
     (case
        and_then (get_prop data ''baseUri'') (\<lambda>b.
        let baseUri = js_or b (JStr ''{{baseUri}}'') in
        and_then (get_prop data ''title'') (\<lambda>title.
        let (uid, n1) = uuid g n in
        and_then (transformRamlNode g data baseUri [] JUndef n1) (\<lambda>(items, n2).
        Inr (JObj [(''name'', js_or title (JStr [])), (''uid'', uid), (''version'', JStr ''1''),
                   (''items'', items), (''environments'', JArr [])], n2))))
      of Inl err \<Rightarrow> Inl (BrunoError ''An error occurred while parsing the RAML collection'')
       | Inr r \<Rightarrow> Inr r)"

subsection \<open>The request builder of the earlier revision (lines 152-245)\<close>

text \<open>
  \<^verbatim>\<open>get(object, path, defaultValue)\<close> of lodash for a dotted path of fixed keys, given
  as the list of its keys. When the object has a property whose name is the whole dotted
  path, that property is read; otherwise the path is walked key by key, and the walk
  stops at \<^verbatim>\<open>null\<close> or \<^verbatim>\<open>undefined\<close>. Only an \<^verbatim>\<open>undefined\<close> result is replaced by the
  default.
\<close>

fun lodash_walk :: "jsval \<Rightarrow> string list \<Rightarrow> jsval" where
  "lodash_walk v [] = v"
| "lodash_walk v (k # ks) =
     (case get_prop v k of Inl e \<Rightarrow> JUndef | Inr x \<Rightarrow> lodash_walk x ks)"

definition lodash_get :: "jsval \<Rightarrow> string list \<Rightarrow> jsval \<Rightarrow> jsval" where
  "lodash_get object path defaultValue =
     (let result =
        (case object of
           JObj kvs \<Rightarrow>
             (case map_of kvs (join_with ''.'' path) of
                Some v \<Rightarrow> v
              | None \<Rightarrow> lodash_walk object path)
         | _ \<Rightarrow> lodash_walk object path)
      in if result = JUndef then defaultValue else result)"

text \<open>\<^verbatim>\<open>xs.find(p)\<close> for a predicate that reads properties.\<close>

fun find_js :: "('a \<Rightarrow> exn + bool) \<Rightarrow> 'a list \<Rightarrow> exn + 'a option" where
  "find_js p [] = Inr None"
| "find_js p (x # xs) = and_then (p x) (\<lambda>b. if b then Inr (Some x) else find_js p xs)"

definition bodyModeMapping :: "(string \<times> string) list" where
  "bodyModeMapping =
     [(''multipart/form-data'', ''multipartForm''),
      (''application/x-www-form-urlencoded'', ''formUrlEncoded''),
      (''application/json'', ''json''),
      (''application/xml'', ''xml''),
      (''text/xml'', ''xml''),
      (''text/plain'', ''text'')]"

definition body_fields ::
  "(nat \<Rightarrow> string) \<Rightarrow> (string \<times> jsval) list \<Rightarrow> nat \<Rightarrow> exn + jsval list \<times> nat" where
  "body_fields g kvs n =
     mapM (\<lambda>(fld, fieldProp) k.
         let (uid, k1) = uuid g k in
         and_then (get_prop fieldProp ''description'') (\<lambda>description.
         and_then (get_prop fieldProp ''required'') (\<lambda>required.
         Inr (JObj [(''uid'', uid), (''name'', JStr fld), (''value'', JStr []),
                    (''description'', js_or description (JStr [])),
                    (''enabled'', required)], k1)))) kvs n"

text \<open>
  The block \<^verbatim>\<open>if (properties.body) { ... }\<close> in three parts: the choice of the media
  type, the filling of the body for the mode found in the table, and the block itself,
  which returns the body object of the request. A media type outside the table leaves
  \<^verbatim>\<open>bodyMode\<close> undefined, which is then stored as the mode and used as the property key
  \<^verbatim>\<open>"undefined"\<close>.
\<close>

definition raml_mediaType :: "jsval \<Rightarrow> jsval \<Rightarrow> exn + jsval" where
  "raml_mediaType body defaultMediaType =
     and_then (find_js (\<lambda>element. and_then (get_prop body element) (\<lambda>v. Inr (truthy v)))
             (map fst bodyModeMapping)) (\<lambda>found.
     Inr (js_or (case found of Some m \<Rightarrow> JStr m | None \<Rightarrow> JUndef) defaultMediaType))"

definition raml_fill_body ::
  "(nat \<Rightarrow> string) \<Rightarrow> jsval \<Rightarrow> jsval \<Rightarrow> jsval \<Rightarrow> nat \<Rightarrow> exn + (string \<times> jsval) list \<times> nat" where
  "raml_fill_body g properties body bodyMode n =
     (let body1 = obj_set body_none ''mode'' bodyMode in
      if bodyMode = JStr ''multipartForm'' \<or> bodyMode = JStr ''formUrlEncoded'' then
        and_then (get_prop body ''properties'') (\<lambda>dflt.
        let bodyProps = js_or (lodash_get properties [''body'', ''mediaType'', ''properties''] dflt)
                          (JObj []) in
        and_then (entries bodyProps) (\<lambda>fs.
        and_then (body_fields g fs n) (\<lambda>(flds, n1).
        Inr (obj_set body1 (toString bodyMode) (JArr flds), n1))))
      else
        and_then (get_prop body ''example'') (\<lambda>dflt.
        let example = js_or (lodash_get properties [''body'', ''mediaType'', ''example''] dflt)
                        (JStr []) in
        Inr (obj_set body1 (toString bodyMode) example, n)))"

definition raml_body ::
  "(nat \<Rightarrow> string) \<Rightarrow> jsval \<Rightarrow> jsval \<Rightarrow> nat \<Rightarrow> exn + (string \<times> jsval) list \<times> nat" where
  "raml_body g properties defaultMediaType n =
     and_then (get_prop properties ''body'') (\<lambda>body.
     if truthy body then
       and_then (raml_mediaType body defaultMediaType) (\<lambda>mediaType.
       if truthy mediaType then
         raml_fill_body g properties body
           (case map_of bodyModeMapping (toString mediaType) of
              Some m \<Rightarrow> JStr m | None \<Rightarrow> JUndef) n
       else Inr (body_none, n))
     else Inr (body_none, n))"

definition createBrunoRequest_v1 ::
  "(nat \<Rightarrow> string) \<Rightarrow> string \<Rightarrow> jsval \<Rightarrow> string \<Rightarrow> jsval \<Rightarrow> jsval \<Rightarrow> nat \<Rightarrow> exn + jsval \<times> nat" where
  "createBrunoRequest_v1 g method baseUri path properties defaultMediaType n =
     (let (uid, n1) = uuid g n in
      and_then (get_prop properties ''displayName'') (\<lambda>displayName.
      and_then (extractUriParameters g path n1) (\<lambda>(req, n2).
      and_then (get_prop properties ''description'') (\<lambda>description.
      and_then (get_prop properties ''queryParameters'') (\<lambda>queryParameters.
      and_then (entries (js_or queryParameters (JObj []))) (\<lambda>qs.
      and_then (queryParameter_fields g qs n2) (\<lambda>(params, n3).
      and_then (get_prop properties ''headers'') (\<lambda>headers.
      and_then (entries (js_or headers (JObj []))) (\<lambda>hs.
      and_then (header_fields g hs n3) (\<lambda>(hdrs, n4).
      and_then (raml_body g properties defaultMediaType n4) (\<lambda>(body, n5).
      Inr (JObj [(''uid'', uid),
                 (''name'', js_or displayName (JStr (buildApiName method path))),
                 (''type'', JStr ''http-request''),
                 (''request'', JObj [
                    (''url'', JStr (ensureUrl (toString baseUri @ ''/'' @ path))),
                    (''method'', JStr (toUpperCase method)),
                    (''auth'', auth_none),
                    (''headers'', JArr hdrs),
                    (''params'', JArr params),
                    (''vars'', JObj [(''req'', JArr req)]),
                    (''body'', JObj body),
                    (''docs'', js_or description (JStr []))])], n5))))))))))))"

subsection \<open>The OpenAPI helpers (lines 390-403 and 508-748)\<close>

text \<open>
  \<^verbatim>\<open>each(collection, iteratee)\<close> of lodash, as the list of (key, value) pairs the iteratee
  is called with: nothing for \<^verbatim>\<open>null\<close> and \<^verbatim>\<open>undefined\<close>, the indexed elements of an
  array, a string or an object with a numeric \<^verbatim>\<open>length\<close>, the own properties of any other
  object. No iteratee of this file returns \<^verbatim>\<open>false\<close>, so no iteration stops early.
\<close>

fun each_entries :: "jsval \<Rightarrow> (jsval \<times> jsval) list" where
  "each_entries (JArr xs) = map (\<lambda>(i, x). (JNum (int i), x)) (indexed_from 0 xs)"
| "each_entries (JStr s) = map (\<lambda>(i, c). (JNum (int i), JStr [c])) (indexed_from 0 s)"
| "each_entries (JObj kvs) =
     (case map_of kvs ''length'' of
        Some (JNum l) \<Rightarrow>
          if 0 \<le> l \<and> l \<le> 9007199254740991
          then map (\<lambda>i. (JNum (int i),
                         case map_of kvs (show_nat i) of Some v \<Rightarrow> v | None \<Rightarrow> JUndef)) [0..<nat l]
          else map (\<lambda>(k, v). (JStr k, v)) kvs
      | _ \<Rightarrow> map (\<lambda>(k, v). (JStr k, v)) kvs)"
| "each_entries v = []"

text \<open>A loop body that updates an accumulator and may throw.\<close>

fun foldM :: "('b \<Rightarrow> 'a \<Rightarrow> exn + 'b) \<Rightarrow> 'a list \<Rightarrow> 'b \<Rightarrow> exn + 'b" where
  "foldM f [] acc = Inr acc"
| "foldM f (x # xs) acc = and_then (f acc x) (\<lambda>acc'. foldM f xs acc')"

lemma foldM_cong [fundef_cong]:
  assumes "xs = ys" and "a = b" and "\<And>x acc. x \<in> set ys \<Longrightarrow> f acc x = h acc x"
  shows "foldM f xs a = foldM h ys b"
  using assms(3) unfolding assms(1,2)
proof (induction ys arbitrary: b)
  case Nil
  show ?case by simp
next
  case (Cons y ys)
  have "foldM f ys = foldM h ys"
    using Cons by (intro ext) simp
  moreover have "f b y = h b y"
    using Cons.prems by simp
  ultimately show ?case by simp
qed

lemma indexed_from_member: "(i, x) \<in> set (indexed_from k xs) \<Longrightarrow> x \<in> set xs"
  by (induction xs arbitrary: k) auto

lemma each_entries_smaller:
  assumes "(nm, JObj x) \<in> set (each_entries e)"
  shows "size (JObj x) < size e"
proof (cases e)
  case (JArr xs)
  with assms have "JObj x \<in> set xs" by (auto dest: indexed_from_member)
  then have "size (JObj x) < Suc (size_list size xs)"
    by (induction xs) auto
  with JArr show ?thesis by simp
next
  case (JObj kvs)
  have sub: "size v < Suc (size_list (size_prod (\<lambda>_. 0) size) kvs)" if "(k, v) \<in> set kvs" for k v
    using that by (induction kvs) auto
  from assms JObj have "\<exists>k. (k, JObj x) \<in> set kvs"
    by (auto split: option.splits jsval.splits if_splits dest: indexed_from_member)
       (blast dest: map_of_SomeD)+
  then obtain k where "(k, JObj x) \<in> set kvs" ..
  from sub [OF this] JObj show ?thesis by simp
qed (use assms in auto)

lemma properties_smaller:
  assumes "get_prop s ''properties'' = Inr p"
    and "(nm, JObj x) \<in> set (each_entries (js_or p (JObj [])))"
  shows "size (JObj x) < size s"
proof (cases "truthy p")
  case False
  with assms(2) show ?thesis by (simp add: js_or_def)
next
  case True
  with assms(2) have less: "size (JObj x) < size p"
    using each_entries_smaller [of nm x p] by (simp add: js_or_def)
  show ?thesis
  proof (cases s)
    case (JObj kvs)
    have sub: "size v < Suc (size_list (size_prod (\<lambda>_. 0) size) kvs)" if "(k, v) \<in> set kvs" for k v
      using that by (induction kvs) auto
    from assms(1) JObj True have "(''properties'', p) \<in> set kvs"
      by (auto split: option.splits dest: map_of_SomeD)
    from sub [OF this] JObj less show ?thesis by simp
  next
    case (JArr xs)
    with assms(1) True show ?thesis
      by (simp add: is_array_index_def is_digit_def)
  next
    case (JStr str)
    with assms(1) True show ?thesis
      by (simp add: is_array_index_def is_digit_def)
  qed (use assms(1) True in auto)
qed

lemma type_object_is_obj:
  assumes "get_prop v ''type'' = Inr (JStr ''object'')"
  obtains x where "v = JObj x"
  using assms by (cases v) (auto simp: is_array_index_def is_digit_def split: if_splits)

function buildEmptyJsonBody :: "jsval \<Rightarrow> exn + jsval" where
  "buildEmptyJsonBody bodySchema =
     and_then (get_prop bodySchema ''properties'') (\<lambda>properties.
     and_then (foldM (\<lambda>jsonBody (name, prp).
             and_then (get_prop prp ''type'') (\<lambda>ty.
             if ty = JStr ''object''
             then and_then (buildEmptyJsonBody prp) (\<lambda>b. Inr (obj_set jsonBody (toString name) b))
             else if ty = JStr ''array''
             then Inr (obj_set jsonBody (toString name) (JArr []))
             else Inr (obj_set jsonBody (toString name) (JStr []))))
           (each_entries (js_or properties (JObj []))) []) (\<lambda>jsonBody.
     Inr (JObj jsonBody)))"
  by pat_completeness auto
termination
proof (relation "measure size")
  show "wf (measure size)" by simp
next
  fix bodySchema properties :: jsval and xa :: "jsval \<times> jsval" and name prp ty :: jsval
    and jsonBody :: "(string \<times> jsval) list"
  assume "get_prop bodySchema ''properties'' = Inr properties"
    and "xa \<in> set (each_entries (js_or properties (JObj [])))"
    and "(name, prp) = xa" and "get_prop prp ''type'' = Inr ty" and "ty = JStr ''object''"
  then show "(prp, bodySchema) \<in> measure size"
    using properties_smaller [of bodySchema properties name]
    by (auto elim!: type_object_is_obj)
qed

declare buildEmptyJsonBody.simps [simp del]

text \<open>
  \<^verbatim>\<open>JSON.stringify(value, null, 2)\<close> on an object or array: \<open>ind\<close> is the indentation of
  the enclosing level. A property whose value is \<^verbatim>\<open>undefined\<close> is left out of an object
  and printed as \<^verbatim>\<open>null\<close> in an array.
\<close>

definition json_escape :: "char \<Rightarrow> string" where
  "json_escape c =
     (if c = CHR ''\"'' then [CHR 0x5C, CHR ''\"'']
      else if c = CHR 0x5C then [CHR 0x5C, CHR 0x5C]
      else if c = CHR 0x08 then [CHR 0x5C, CHR ''b'']
      else if c = CHR 0x0C then [CHR 0x5C, CHR ''f'']
      else if c = CHR 0x0A then [CHR 0x5C, CHR ''n'']
      else if c = CHR 0x0D then [CHR 0x5C, CHR ''r'']
      else if c = CHR 0x09 then [CHR 0x5C, CHR ''t'']
      else if (of_char c :: nat) < 32
      then [CHR 0x5C, CHR ''u'', CHR ''0'', CHR ''0'',
            ''0123456789abcdef'' ! ((of_char c :: nat) div 16),
            ''0123456789abcdef'' ! ((of_char c :: nat) mod 16)]
      else [c])"

definition json_quote :: "string \<Rightarrow> string" where
  "json_quote s = [CHR ''\"''] @ concat (map json_escape s) @ [CHR ''\"'']"

fun stringify :: "string \<Rightarrow> jsval \<Rightarrow> string" where
  "stringify ind JUndef = ''null''"
| "stringify ind JNull = ''null''"
| "stringify ind (JBool b) = (if b then ''true'' else ''false'')"
| "stringify ind (JNum i) = show_int i"
| "stringify ind (JStr s) = json_quote s"
| "stringify ind (JArr xs) =
     (if xs = [] then ''[]''
      else ''['' @ [CHR 0x0A] @ ind @ ''  '' @
           join_with ('','' @ [CHR 0x0A] @ ind @ ''  '') (map (stringify (ind @ ''  '')) xs) @
           [CHR 0x0A] @ ind @ '']'')"
| "stringify ind (JObj kvs) =
     (if list_all (\<lambda>(k, v). v = JUndef) kvs then ''{}''
      else ''{'' @ [CHR 0x0A] @ ind @ ''  '' @
           join_with ('','' @ [CHR 0x0A] @ ind @ ''  '')
             (concat (map (\<lambda>(k, v). if v = JUndef then []
                                     else [json_quote k @ '': '' @ stringify (ind @ ''  '') v]) kvs)) @
           [CHR 0x0A] @ ind @ ''}'')"

text \<open>
  The value \<^verbatim>\<open>getSecurity\<close> returns. The properties \<^verbatim>\<open>schemes\<close> and \<^verbatim>\<open>getScheme\<close> are set
  together or not at all, and \<^verbatim>\<open>getScheme\<close> only reads \<^verbatim>\<open>schemes\<close>: the record holds the
  scheme index when both are present and \<open>None\<close> when the object has \<^verbatim>\<open>supported\<close> alone.
\<close>

record security_config =
  supported :: "jsval list"
  schemes :: "jsval option"

text \<open>Calling \<^verbatim>\<open>security.getScheme(schemeName)\<close>: a missing method is not callable.\<close>

definition getScheme :: "security_config \<Rightarrow> jsval \<Rightarrow> exn + jsval" where
  "getScheme security schemeName =
     (case schemes security of
        None \<Rightarrow> Inl TypeError
      | Some securitySchemes \<Rightarrow> get_prop securitySchemes (toString schemeName))"

text \<open>\<^verbatim>\<open>Object.keys(o)[0]\<close>.\<close>

definition first_key :: "jsval \<Rightarrow> exn + jsval" where
  "first_key v = and_then (keys v) (\<lambda>ks. Inr (case ks of [] \<Rightarrow> JUndef | k # _ \<Rightarrow> JStr k))"

text \<open>Applying a function that may throw to every element, in order.\<close>

fun traverse :: "('a \<Rightarrow> exn + 'b) \<Rightarrow> 'a list \<Rightarrow> exn + 'b list" where
  "traverse f [] = Inr []"
| "traverse f (x # xs) = and_then (f x) (\<lambda>y. and_then (traverse f xs) (\<lambda>ys. Inr (y # ys)))"

text \<open>
  \<^verbatim>\<open>getSecurity\<close>. The test \<^verbatim>\<open>Object.keys(securitySchemes) === 0\<close> compares an array with a
  number and is never true; evaluating it still throws when the index is \<^verbatim>\<open>null\<close>.
  \<^verbatim>\<open>supportedSchemes.map\<close> exists on arrays only.
\<close>

definition getSecurity :: "jsval \<Rightarrow> exn + security_config" where
  "getSecurity apiSpec =
     and_then (get_prop apiSpec ''security'') (\<lambda>security.
     let supportedSchemes = js_or security (JArr []) in
     and_then (get_prop supportedSchemes ''length'') (\<lambda>len.
     if len = JNum 0 then Inr \<lparr>supported = [], schemes = None\<rparr>
     else
       (let securitySchemes = lodash_get apiSpec [''components'', ''securitySchemes''] (JObj []) in
        and_then (keys securitySchemes) (\<lambda>ks.
        case supportedSchemes of
          JArr xs \<Rightarrow>
            and_then (traverse (\<lambda>scheme.
                    and_then (first_key scheme) (\<lambda>schemeName.
                    get_prop securitySchemes (toString schemeName))) xs) (\<lambda>sup.
            Inr \<lparr>supported = sup, schemes = Some securitySchemes\<rparr>)
        | _ \<Rightarrow> Inl TypeError))))"

text \<open>
  The operation descriptor that \<^verbatim>\<open>transformOpenapiRequestItem\<close> and
  \<^verbatim>\<open>groupRequestsByTags\<close> receive: \<^verbatim>\<open>{ method, path, operationObject, global: { server, security } }\<close>.
\<close>

record openapi_request =
  rq_method :: string
  rq_path :: string
  rq_operationObject :: jsval
  rq_server :: jsval
  rq_security :: security_config

text \<open>The loop over \<^verbatim>\<open>_operationObject.parameters\<close>: it pushes onto the headers or the params.\<close>

fun parameter_fields ::
  "(nat \<Rightarrow> string) \<Rightarrow> (jsval \<times> jsval) list \<Rightarrow> jsval list \<times> jsval list \<Rightarrow> nat
     \<Rightarrow> exn + (jsval list \<times> jsval list) \<times> nat" where
  "parameter_fields g [] acc n = Inr (acc, n)"
| "parameter_fields g ((i, param) # rest) (hdrs, params) n =
     and_then (get_prop param ''in'') (\<lambda>loc.
     if loc = JStr ''query'' \<or> loc = JStr ''header'' then
       (let (uid, n1) = uuid g n in
        and_then (get_prop param ''name'') (\<lambda>name.
        and_then (get_prop param ''description'') (\<lambda>description.
        and_then (get_prop param ''required'') (\<lambda>required.
        let fld = JObj [(''uid'', uid), (''name'', name), (''value'', JStr []),
                        (''description'', js_or description (JStr [])),
                        (''enabled'', required)] in
        if loc = JStr ''query''
        then parameter_fields g rest (hdrs, params @ [fld]) n1
        else parameter_fields g rest (hdrs @ [fld], params) n1))))
     else parameter_fields g rest (hdrs, params) n)"

text \<open>The loops over \<^verbatim>\<open>bodySchema.properties\<close> of a form or multipart body.\<close>

definition schema_fields ::
  "(nat \<Rightarrow> string) \<Rightarrow> (jsval \<times> jsval) list \<Rightarrow> nat \<Rightarrow> exn + jsval list \<times> nat" where
  "schema_fields g kvs n =
     mapM (\<lambda>(name, prp) k.
         let (uid, k1) = uuid g k in
         and_then (get_prop prp ''description'') (\<lambda>description.
         Inr (JObj [(''uid'', uid), (''name'', name), (''value'', JStr []),
                    (''description'', js_or description (JStr [])),
                    (''enabled'', JBool True)], k1))) kvs n"

text \<open>The selection of the security scheme (lines 562-569).\<close>

definition select_auth :: "openapi_request \<Rightarrow> exn + jsval" where
  "select_auth request =
     and_then (get_prop (rq_operationObject request) ''security'') (\<lambda>security.
     and_then (if truthy security then get_prop security ''length'' else Inr JUndef) (\<lambda>len.
     and_then (if truthy security then js_gt0 len else Inr False) (\<lambda>declared.
     if declared then
       and_then (get_prop security ''0'') (\<lambda>requirement.
       and_then (first_key requirement) (\<lambda>schemeName.
       getScheme (rq_security request) schemeName))
     else if 0 < length (supported (rq_security request))
     then Inr (supported (rq_security request) ! 0)
     else Inr JUndef)))"

text \<open>
  The mapping of the selected scheme (lines 571-592): it returns the auth object, the
  headers and the call counter.
\<close>

definition map_auth ::
  "(nat \<Rightarrow> string) \<Rightarrow> jsval \<Rightarrow> jsval list \<Rightarrow> nat \<Rightarrow> exn + (jsval \<times> jsval list) \<times> nat" where
  "map_auth g auth hdrs n =
     (if truthy auth then
        and_then (get_prop auth ''type'') (\<lambda>ty.
        and_then (get_prop auth ''scheme'') (\<lambda>scheme.
        and_then (get_prop auth ''in'') (\<lambda>loc.
        and_then (get_prop auth ''name'') (\<lambda>name.
        if ty = JStr ''http'' \<and> scheme = JStr ''basic'' then
          Inr ((JObj [(''mode'', JStr ''basic''),
                      (''basic'', JObj [(''username'', JStr ''{{username}}''),
                                        (''password'', JStr ''{{password}}'')]),
                      (''bearer'', JNull), (''digest'', JNull)], hdrs), n)
        else if ty = JStr ''http'' \<and> scheme = JStr ''bearer'' then
          Inr ((JObj [(''mode'', JStr ''bearer''), (''basic'', JNull),
                      (''bearer'', JObj [(''token'', JStr ''{{token}}'')]),
                      (''digest'', JNull)], hdrs), n)
        else if ty = JStr ''apiKey'' \<and> loc = JStr ''header'' then
          (let (uid, n1) = uuid g n in
           Inr ((auth_none,
                 hdrs @ [JObj [(''uid'', uid), (''name'', name), (''value'', JStr ''{{apiKey}}''),
                               (''description'', JStr ''Authentication header''),
                               (''enabled'', JBool True)]]), n1))
        else Inr ((auth_none, hdrs), n)))))
      else Inr ((auth_none, hdrs), n))"

text \<open>
  The block \<^verbatim>\<open>if (_operationObject.requestBody) { ... }\<close> (lines 595-639) in two parts:
  the chain of tests on the mime type, and the block itself, which returns the body
  object of the request.
\<close>

definition openapi_fill_body ::
  "(nat \<Rightarrow> string) \<Rightarrow> jsval \<Rightarrow> jsval \<Rightarrow> nat \<Rightarrow> exn + (string \<times> jsval) list \<times> nat" where
  "openapi_fill_body g mimeType bodySchema n =
     and_then (if truthy bodySchema then get_prop bodySchema ''type'' else Inr JUndef) (\<lambda>ty.
     let is_object = (truthy bodySchema \<and> ty = JStr ''object'') in
     if mimeType = JStr ''application/json'' then
       (if is_object
        then and_then (buildEmptyJsonBody bodySchema) (\<lambda>jsonBody.
             Inr (obj_set (obj_set body_none ''mode'' (JStr ''json''))
                    ''json'' (JStr (stringify [] jsonBody)), n))
        else Inr (obj_set body_none ''mode'' (JStr ''json''), n))
     else if mimeType = JStr ''application/x-www-form-urlencoded'' then
       (if is_object
        then and_then (get_prop bodySchema ''properties'') (\<lambda>properties.
             and_then (schema_fields g (each_entries (js_or properties (JObj []))) n) (\<lambda>(flds, n1).
             Inr (obj_set (obj_set body_none ''mode'' (JStr ''formUrlEncoded''))
                    ''formUrlEncoded'' (JArr flds), n1)))
        else Inr (obj_set body_none ''mode'' (JStr ''formUrlEncoded''), n))
     else if mimeType = JStr ''multipart/form-data'' then
       (if is_object
        then and_then (get_prop bodySchema ''properties'') (\<lambda>properties.
             and_then (schema_fields g (each_entries (js_or properties (JObj []))) n) (\<lambda>(flds, n1).
             Inr (obj_set (obj_set body_none ''mode'' (JStr ''multipartForm''))
                    ''multipartForm'' (JArr flds), n1)))
        else Inr (obj_set body_none ''mode'' (JStr ''multipartForm''), n))
     else if mimeType = JStr ''text/plain'' then
       Inr (obj_set (obj_set body_none ''mode'' (JStr ''text'')) ''text'' (JStr []), n)
     else if mimeType = JStr ''text/xml'' then
       Inr (obj_set (obj_set body_none ''mode'' (JStr ''xml'')) ''xml'' (JStr []), n)
     else Inr (body_none, n))"

definition openapi_body ::
  "(nat \<Rightarrow> string) \<Rightarrow> jsval \<Rightarrow> nat \<Rightarrow> exn + (string \<times> jsval) list \<times> nat" where
  "openapi_body g operationObject n =
     and_then (get_prop operationObject ''requestBody'') (\<lambda>requestBody.
     if truthy requestBody then
       (let content = lodash_get operationObject [''requestBody'', ''content''] (JObj []) in
        and_then (first_key content) (\<lambda>mimeType.
        and_then (get_prop content (toString mimeType)) (\<lambda>b.
        let body = js_or b (JObj []) in
        and_then (get_prop body ''schema'') (\<lambda>bodySchema.
        openapi_fill_body g mimeType bodySchema n))))
     else Inr (body_none, n))"

definition transformOpenapiRequestItem ::
  "(nat \<Rightarrow> string) \<Rightarrow> openapi_request \<Rightarrow> nat \<Rightarrow> exn + jsval \<times> nat" where
  "transformOpenapiRequestItem g request n =
     (let operationObject = rq_operationObject request in
      and_then (get_prop operationObject ''operationId'') (\<lambda>operationId.
      and_then (get_prop operationObject ''summary'') (\<lambda>summary.
      and_then (get_prop operationObject ''description'') (\<lambda>description.
      let operationName = js_or (js_or operationId summary) description;
          operationName = (if \<not> truthy operationName
                           then JStr (rq_method request @ '' '' @ rq_path request)
                           else operationName);
          (uid, n1) = uuid g n in
      and_then (get_prop operationObject ''parameters'') (\<lambda>parameters.
      and_then (parameter_fields g (each_entries (js_or parameters (JArr []))) ([], []) n1)
        (\<lambda>((hdrs, params), n2).
      and_then (select_auth request) (\<lambda>auth.
      and_then (map_auth g auth hdrs n2) (\<lambda>((authObject, hdrs'), n3).
      and_then (openapi_body g operationObject n3) (\<lambda>(body, n4).
      Inr (JObj [(''uid'', uid),
                 (''name'', operationName),
                 (''type'', JStr ''http-request''),
                 (''request'', JObj [
                    (''url'', JStr (ensureUrl (toString (rq_server request) @ ''/'' @ rq_path request))),
                    (''method'', JStr (toUpperCase (rq_method request))),
                    (''auth'', authObject),
                    (''headers'', JArr hdrs'),
                    (''params'', JArr params),
                    (''body'', JObj body)])], n4))))))))))"

text \<open>
  \<^verbatim>\<open>groupRequestsByTags\<close>. The object \<^verbatim>\<open>_groups\<close> is the list of its properties in
  enumeration order, so that \<^verbatim>\<open>Object.keys(_groups)\<close> is the list of its keys.
\<close>

record request_group =
  grp_name :: string
  grp_requests :: "openapi_request list"

text \<open>
  The tag an operation is filed under: the first element of \<^verbatim>\<open>tags\<close> as a property key,
  or \<open>None\<close> when \<^verbatim>\<open>tags.length > 0\<close> is false.
\<close>

definition first_tag :: "openapi_request \<Rightarrow> exn + string option" where
  "first_tag request =
     and_then (get_prop (rq_operationObject request) ''tags'') (\<lambda>t.
     let tags = js_or t (JArr []) in
     and_then (get_prop tags ''length'') (\<lambda>len.
     and_then (js_gt0 len) (\<lambda>positive.
     if positive
     then and_then (get_prop tags ''0'') (\<lambda>tg.
          and_then (to_string tg) (\<lambda>tag. Inr (Some tag)))
     else Inr None)))"

text \<open>
  \<^verbatim>\<open>if (!_groups[tag]) { _groups[tag] = []; } _groups[tag].push(request);\<close> The read
  \<^verbatim>\<open>_groups[tag]\<close> finds an own property, which is the array of a group, or a member that
  \<^verbatim>\<open>_groups\<close> inherits, which is truthy and has no method \<^verbatim>\<open>push\<close>, so that the call
  throws. Only when it finds neither is a new group created.
\<close>

definition push_to_group ::
  "(string \<times> openapi_request list) list \<Rightarrow> string \<Rightarrow> openapi_request
     \<Rightarrow> exn + (string \<times> openapi_request list) list" where
  "push_to_group groups tag request =
     (case map_of groups tag of
        Some rs \<Rightarrow> Inr (obj_set groups tag (rs @ [request]))
      | None \<Rightarrow>
          if tag \<in> set object_members then Inl TypeError
          else Inr (obj_set (obj_set groups tag []) tag [request]))"

definition group_step ::
  "(string \<times> openapi_request list) list \<times> openapi_request list \<Rightarrow> openapi_request
     \<Rightarrow> exn + (string \<times> openapi_request list) list \<times> openapi_request list" where
  "group_step acc request =
     (case acc of (groups, ungrouped) \<Rightarrow>
      and_then (first_tag request) (\<lambda>tg.
      case tg of
        Some tag \<Rightarrow>
          and_then (push_to_group groups tag request) (\<lambda>groups'. Inr (groups', ungrouped))
      | None \<Rightarrow> Inr (groups, ungrouped @ [request])))"

definition groupRequestsByTags ::
  "openapi_request list \<Rightarrow> exn + request_group list \<times> openapi_request list" where
  "groupRequestsByTags requests =
     and_then (foldM group_step requests ([], [])) (\<lambda>(groups, ungrouped).
     Inr (map (\<lambda>(groupName, rs). \<lparr>grp_name = groupName, grp_requests = rs\<rparr>) groups, ungrouped))"

subsection \<open>The walker and the collection of the earlier revision (lines 256-315)\<close>

function transformRamlNode_v1 ::
  "(nat \<Rightarrow> string) \<Rightarrow> jsval \<Rightarrow> jsval \<Rightarrow> string \<Rightarrow> jsval \<Rightarrow> jsval \<Rightarrow> nat \<Rightarrow> exn + jsval \<times> nat" where
  "transformRamlNode_v1 g ents baseUri basePath defaultMediaType currentFolder n =
     and_then (entries ents) (\<lambda>kvs.
     and_then (mapM (\<lambda>(key, val) k.
               if toLowerCase key \<in> set methods
               then createBrunoRequest_v1 g key baseUri basePath (js_or val (JObj [])) defaultMediaType k
               else if startsWith key ''/''
               then (let (folder, k1) = createBrunoFolder g key k in
                     transformRamlNode_v1 g val baseUri (basePath @ ensureUriParameter key)
                       defaultMediaType folder k1)
               else Inr (JArr [], k)) kvs n) (\<lambda>(results, n1).
     let brunoEntries = foldl js_concat [] results in
     if truthy currentFolder
     then Inr (set_prop currentFolder ''items'' (JArr brunoEntries), n1)
     else Inr (JArr brunoEntries, n1)))"
  by pat_completeness auto
termination
proof (relation "measure (\<lambda>(g, ents, rest). size ents)")
  show "wf (measure (\<lambda>(g, ents, rest). size ents))"
    by simp
next
  fix g :: "nat \<Rightarrow> string" and ents baseUri :: jsval and basePath :: string
    and defaultMediaType currentFolder :: jsval and n :: nat and x :: "(string \<times> jsval) list"
    and xa :: "string \<times> jsval" and xb :: nat and xc :: string and y :: jsval
    and xd :: "jsval \<times> nat" and xe :: jsval and ya :: nat
  assume "entries ents = Inr x" and "xa \<in> set x" and "(xc, y) = xa"
    and "startsWith xc ''/''"
  then have "size y < size ents"
    using entries_smaller [of ents x xc y] by simp
  then show "((g, y, baseUri, basePath @ ensureUriParameter xc, defaultMediaType, xe, ya),
              (g, ents, baseUri, basePath, defaultMediaType, currentFolder, n))
             \<in> measure (\<lambda>(g, ents, rest). size ents)"
    by simp
qed

declare transformRamlNode_v1.simps [simp del]

definition parseRamlCollection_v1 :: "(nat \<Rightarrow> string) \<Rightarrow> jsval \<Rightarrow> nat \<Rightarrow> error + jsval \<times> nat" where
  "parseRamlCollection_v1 g data n =
     (case
        and_then (get_prop data ''baseUri'') (\<lambda>b.
        let baseUri = js_or b (JStr ''{{baseUri}}'') in
        and_then (get_prop data ''mediaType'') (\<lambda>defaultMediaType.
        and_then (get_prop data ''title'') (\<lambda>title.
        let (uid, n1) = uuid g n in
        and_then (transformRamlNode_v1 g data baseUri [] defaultMediaType JUndef n1) (\<lambda>(items, n2).
        Inr (JObj [(''name'', js_or title (JStr [])), (''uid'', uid), (''version'', JStr ''1''),
                   (''items'', items), (''environments'', JArr [])], n2)))))
      of Inl err \<Rightarrow> Inl (BrunoError ''An error occurred while parsing the RAML collection'')
       | Inr r \<Rightarrow> Inr r)"

subsection \<open>The entry point (lines 342-359 and 834-848; the same in both revisions)\<close>

text \<open>
  A promise resolves with a value, rejects with a reason, or never settles.
\<close>

datatype 'a promise = Resolved 'a | Rejected error | Pending

text \<open>\<^verbatim>\<open>p.then(f)\<close> for a function \<open>f\<close> that returns a promise.\<close>

fun then_promise :: "'a promise \<Rightarrow> ('a \<Rightarrow> 'b promise) \<Rightarrow> 'b promise" where
  "then_promise (Resolved x) f = f x"
| "then_promise (Rejected err) f = Rejected err"
| "then_promise Pending f = Pending"

text \<open>
  The collaborators outside this file are parameters: the promise of \<^verbatim>\<open>fileDialog\<close>, the
  outcome \<open>read\<close> of \<^verbatim>\<open>fileReader.readAsText(files[0])\<close> (resolved with the text when
  \<^verbatim>\<open>onload\<close> fires, rejected when \<^verbatim>\<open>onerror\<close> fires or the call throws, pending when
  neither happens), the YAML parser \<open>safeLoad\<close> (\<open>None\<close> when it throws) and the three
  stages after \<^verbatim>\<open>parseRamlCollection\<close>, each a function that returns a promise.
\<close>

definition readFile ::
  "('f list \<Rightarrow> string promise) \<Rightarrow> (string \<Rightarrow> jsval option) \<Rightarrow> 'f list \<Rightarrow> jsval promise" where
  "readFile read safeLoad files =
     then_promise (read files) (\<lambda>content.
       case safeLoad content of
         None \<Rightarrow> Rejected (BrunoError ''Import collection failed'')
       | Some parsedData \<Rightarrow> Resolved parsedData)"

text \<open>
  The text that \<^verbatim>\<open>'Import collection failed: ' + err.message\<close> appends: reading
  \<^verbatim>\<open>message\<close> throws when the reason is \<^verbatim>\<open>null\<close> or \<^verbatim>\<open>undefined\<close>, and so may the
  conversion of the message to a string.
\<close>

definition err_message :: "error \<Rightarrow> exn + jsval" where
  "err_message err =
     (case err of BrunoError m \<Rightarrow> Inr (JStr m) | ExternalError reason \<Rightarrow> get_prop reason ''message'')"

definition failure_text :: "error \<Rightarrow> exn + string" where
  "failure_text err = and_then (err_message err) to_string"

text \<open>
  \<^verbatim>\<open>importCollection\<close>: the chain of \<^verbatim>\<open>then\<close> calls, whose value resolves the promise, and
  the \<^verbatim>\<open>catch\<close> at its end, which rejects the promise. An exception inside the
  \<^verbatim>\<open>catch\<close> handler rejects only the promise that \<^verbatim>\<open>catch\<close> returns, which nothing
  observes: the promise of \<^verbatim>\<open>importCollection\<close> then never settles.
\<close>

definition importCollection ::
  "(nat \<Rightarrow> string) \<Rightarrow> nat \<Rightarrow> 'f list promise \<Rightarrow> ('f list \<Rightarrow> string promise)
     \<Rightarrow> (string \<Rightarrow> jsval option)
     \<Rightarrow> (jsval \<Rightarrow> jsval promise) \<Rightarrow> (jsval \<Rightarrow> jsval promise) \<Rightarrow> (jsval \<Rightarrow> jsval promise)
     \<Rightarrow> jsval promise" where
  "importCollection g n fileDialog read safeLoad transformItemsInCollection hydrateSeqInCollection
       validateSchema =
     (case
        then_promise fileDialog (\<lambda>files.
        then_promise (readFile read safeLoad files) (\<lambda>data.
        then_promise (case parseRamlCollection g data n of
                        Inl err \<Rightarrow> Rejected err
                      | Inr (collection, n1) \<Rightarrow> Resolved collection) (\<lambda>collection.
        then_promise (transformItemsInCollection collection) (\<lambda>collection.
        then_promise (hydrateSeqInCollection collection) (\<lambda>collection.
        validateSchema collection)))))
      of Resolved collection \<Rightarrow> Resolved collection
       | Rejected err \<Rightarrow>
           (case failure_text err of
              Inr m \<Rightarrow> Rejected (BrunoError (''Import collection failed: '' @ m))
            | Inl e \<Rightarrow> Pending)
       | Pending \<Rightarrow> Pending)"

subsection \<open>\<^verbatim>\<open>resolveRefs\<close> (lines 644-684), on a store of objects\<close>

text \<open>
  \<^verbatim>\<open>resolveRefs\<close> assigns to the properties of the objects it walks, and the components
  it looks references up in are those same objects. The model therefore keeps the objects
  in a store: a value is a primitive or the address of an object or array, and the store
  is the list of the objects by address.

  The path of a reference is read key by key with \<^verbatim>\<open>ref[key]\<close>, which finds the own
  properties of a value and, failing that, the members the value inherits from the
  prototype of its kind. Such a member is a built-in function, or for \<^verbatim>\<open>__proto__\<close> the
  prototype itself; it is the value \<open>HBuiltin\<close> of the kind and the name. The lists give
  the members as of ECMAScript 2023.
\<close>

datatype kind = KObject | KArray | KString | KNumber | KBoolean

datatype hval = HUndef | HNull | HBool bool | HNum int | HStr string | HRef nat
  | HBuiltin kind string

datatype hobj = HArr "hval list" | HObj "(string \<times> hval) list"

type_synonym heap = "hobj list"

definition array_members :: "string list" where
  "array_members =
     [''at'', ''concat'', ''constructor'', ''copyWithin'', ''entries'', ''every'', ''fill'',
      ''filter'', ''find'', ''findIndex'', ''findLast'', ''findLastIndex'', ''flat'', ''flatMap'',
      ''forEach'', ''includes'', ''indexOf'', ''join'', ''keys'', ''lastIndexOf'', ''map'',
      ''pop'', ''push'', ''reduce'', ''reduceRight'', ''reverse'', ''shift'', ''slice'', ''some'',
      ''sort'', ''splice'', ''toLocaleString'', ''toReversed'', ''toSorted'', ''toSpliced'',
      ''toString'', ''unshift'', ''values'', ''with'']"

definition string_members :: "string list" where
  "string_members =
     [''anchor'', ''at'', ''big'', ''blink'', ''bold'', ''charAt'', ''charCodeAt'',
      ''codePointAt'', ''concat'', ''constructor'', ''endsWith'', ''fixed'', ''fontcolor'',
      ''fontsize'', ''includes'', ''indexOf'', ''italics'', ''lastIndexOf'', ''link'',
      ''localeCompare'', ''match'', ''matchAll'', ''normalize'', ''padEnd'', ''padStart'',
      ''repeat'', ''replace'', ''replaceAll'', ''search'', ''slice'', ''small'', ''split'',
      ''startsWith'', ''strike'', ''sub'', ''substr'', ''substring'', ''sup'',
      ''toLocaleLowerCase'', ''toLocaleUpperCase'', ''toLowerCase'', ''toString'',
      ''toUpperCase'', ''trim'', ''trimEnd'', ''trimLeft'', ''trimRight'', ''trimStart'',
      ''valueOf'']"

definition number_members :: "string list" where
  "number_members =
     [''constructor'', ''toExponential'', ''toFixed'', ''toLocaleString'', ''toPrecision'',
      ''toString'', ''valueOf'']"

definition boolean_members :: "string list" where
  "boolean_members = [''constructor'', ''toString'', ''valueOf'']"

fun members_of :: "kind \<Rightarrow> string list" where
  "members_of KObject = object_members"
| "members_of KArray = array_members @ object_members"
| "members_of KString = string_members @ object_members"
| "members_of KNumber = number_members @ object_members"
| "members_of KBoolean = boolean_members @ object_members"

fun h_truthy :: "hval \<Rightarrow> bool" where
  "h_truthy HUndef = False"
| "h_truthy HNull = False"
| "h_truthy (HBool b) = b"
| "h_truthy (HNum i) = (i \<noteq> 0)"
| "h_truthy (HStr s) = (s \<noteq> [])"
| "h_truthy (HRef a) = True"
| "h_truthy (HBuiltin k m) = True"

text \<open>
  The own properties of a value: those of an object, and \<^verbatim>\<open>length\<close> and the indices of an
  array or string.
\<close>

fun h_own :: "heap \<Rightarrow> hval \<Rightarrow> string \<Rightarrow> hval option" where
  "h_own h (HStr s) k =
     (if k = ''length'' then Some (HNum (int (length s)))
      else if is_array_index k \<and> read_nat k < length s then Some (HStr [s ! read_nat k])
      else None)"
| "h_own h (HRef a) k =
     (if a < length h then
        (case h ! a of
           HArr xs \<Rightarrow>
             if k = ''length'' then Some (HNum (int (length xs)))
             else if is_array_index k \<and> read_nat k < length xs then Some (xs ! read_nat k)
             else None
         | HObj kvs \<Rightarrow> map_of kvs k)
      else None)"
| "h_own h v k = None"

text \<open>The kind of a value that has properties.\<close>

fun kind_of :: "heap \<Rightarrow> hval \<Rightarrow> kind option" where
  "kind_of h (HBool b) = Some KBoolean"
| "kind_of h (HNum i) = Some KNumber"
| "kind_of h (HStr s) = Some KString"
| "kind_of h (HRef a) =
     (if a < length h then (case h ! a of HArr xs \<Rightarrow> Some KArray | HObj kvs \<Rightarrow> Some KObject)
      else Some KObject)"
| "kind_of h v = None"

text \<open>
  The outcome of a computation on the store: it returns a value, it throws, it goes on
  inside a built-in value, where what it reads is a matter of the engine and outside this
  model, or it has not returned within the given number of nested calls. The function has
  no guard against a cycle of references; \<open>fuel\<close> bounds the depth of its recursion.
\<close>

datatype 'a run = Done 'a | Raise exn | Beyond | OutOfFuel

fun run_then :: "'a run \<Rightarrow> ('a \<Rightarrow> 'b run) \<Rightarrow> 'b run" where
  "run_then (Done x) f = f x"
| "run_then (Raise e) f = Raise e"
| "run_then Beyond f = Beyond"
| "run_then OutOfFuel f = OutOfFuel"

lemma run_then_cong [fundef_cong]:
  assumes "m = m'" and "\<And>x. m' = Done x \<Longrightarrow> f x = h x"
  shows "run_then m f = run_then m' h"
  using assms by (cases m') simp_all

text \<open>
  \<^verbatim>\<open>ref[key]\<close> for a key that comes from the document: an own property, else a member
  the value inherits, else \<^verbatim>\<open>undefined\<close>. Reading \<^verbatim>\<open>null\<close> or \<^verbatim>\<open>undefined\<close> throws.
\<close>

definition h_read :: "heap \<Rightarrow> hval \<Rightarrow> string \<Rightarrow> hval run" where
  "h_read h v k =
     (case v of
        HUndef \<Rightarrow> Raise TypeError
      | HNull \<Rightarrow> Raise TypeError
      | HBuiltin kd m \<Rightarrow> Beyond
      | _ \<Rightarrow>
          (case h_own h v k of
             Some x \<Rightarrow> Done x
           | None \<Rightarrow>
               (case kind_of h v of
                  Some kd \<Rightarrow> Done (if k \<in> set (members_of kd) then HBuiltin kd k else HUndef)
                | None \<Rightarrow> Done HUndef)))"

text \<open>
  A read with a name that no value inherits: \<^verbatim>\<open>spec.components\<close>, and \<^verbatim>\<open>spec[prop]\<close> for
  an own property \<^verbatim>\<open>prop\<close> in the loop over the properties.
\<close>

definition h_get_prop :: "heap \<Rightarrow> hval \<Rightarrow> string \<Rightarrow> exn + hval" where
  "h_get_prop h v k =
     (case v of
        HUndef \<Rightarrow> Inl TypeError
      | HNull \<Rightarrow> Inl TypeError
      | _ \<Rightarrow> Inr (case h_own h v k of Some x \<Rightarrow> x | None \<Rightarrow> HUndef))"

text \<open>
  The loop \<^verbatim>\<open>for (const key of refKeys)\<close>: \<open>Some\<close> of the value reached, or \<open>None\<close> when
  the test \<^verbatim>\<open>if (ref[key])\<close> fails and the function returns \<^verbatim>\<open>spec\<close>.
\<close>

fun walk_refs :: "heap \<Rightarrow> hval \<Rightarrow> string list \<Rightarrow> hval option run" where
  "walk_refs h rf [] = Done (Some rf)"
| "walk_refs h rf (key # ks) =
     run_then (h_read h rf key) (\<lambda>v. if h_truthy v then walk_refs h v ks else Done None)"

text \<open>\<^verbatim>\<open>spec[prop] = v\<close> on the object at address \<open>a\<close>.\<close>

definition h_set_prop :: "heap \<Rightarrow> nat \<Rightarrow> string \<Rightarrow> hval \<Rightarrow> heap" where
  "h_set_prop h a k v =
     (if a < length h then
        (case h ! a of HObj kvs \<Rightarrow> h[a := HObj (obj_set kvs k v)] | HArr xs \<Rightarrow> h)
      else h)"

text \<open>
  The block \<^verbatim>\<open>if ('$ref' in spec) { ... }\<close> on the properties \<open>kvs\<close> of \<^verbatim>\<open>spec\<close>: it
  returns \<^verbatim>\<open>spec\<close> as it is, goes on with the referenced value, falls through to the loop
  over the properties, throws (\<^verbatim>\<open>refPath.startsWith\<close> exists on strings only), or leaves
  the model.
\<close>

datatype ref_outcome = ReturnSpec | Follow hval | FallThrough | Throw exn | Leave

definition ref_block :: "heap \<Rightarrow> (string \<times> hval) list \<Rightarrow> hval \<Rightarrow> ref_outcome" where
  "ref_block h kvs components =
     (case map_of kvs ''$ref'' of
        None \<Rightarrow> FallThrough
      | Some (HStr refPath) \<Rightarrow>
          if startsWith refPath ''#/components/'' then
            (case walk_refs h components (split CHR ''/'' (drop 13 refPath)) of
               Raise e \<Rightarrow> Throw e
             | Done None \<Rightarrow> ReturnSpec
             | Done (Some rf) \<Rightarrow> Follow rf
             | _ \<Rightarrow> Leave)
          else FallThrough
      | Some other \<Rightarrow> Throw TypeError)"

text \<open>
  \<^verbatim>\<open>resolveRefs(spec, components)\<close>; \<open>comps\<close> is \<^verbatim>\<open>undefined\<close> when the argument is left out
  or is \<^verbatim>\<open>undefined\<close>, and the default \<^verbatim>\<open>spec.components\<close> is then evaluated first. A
  built-in value is a function, which is returned as it is, or a prototype, which is an
  object without enumerable properties and is returned as it is too, except the prototype
  of the arrays: it is an array, and \<^verbatim>\<open>map\<close> makes a new empty array of it.
\<close>

function (sequential) resolveRefs :: "nat \<Rightarrow> heap \<Rightarrow> hval \<Rightarrow> hval \<Rightarrow> (hval \<times> heap) run"
  and resolveItems :: "nat \<Rightarrow> heap \<Rightarrow> hval list \<Rightarrow> hval \<Rightarrow> (hval list \<times> heap) run"
  and resolveProps :: "nat \<Rightarrow> heap \<Rightarrow> nat \<Rightarrow> string list \<Rightarrow> hval \<Rightarrow> heap run"
where
  "resolveRefs 0 h spec comps = OutOfFuel"
| "resolveRefs (Suc fuel) h spec comps =
     run_then (if comps = HUndef
               then (case h_get_prop h spec ''components'' of Inl e \<Rightarrow> Raise e | Inr c \<Rightarrow> Done c)
               else Done comps)
       (\<lambda>components.
     case spec of
       HRef a \<Rightarrow>
         (if a < length h then
            (case h ! a of
               HArr items \<Rightarrow>
                 run_then (resolveItems fuel h items components) (\<lambda>(items', h').
                 Done (HRef (length h'), h' @ [HArr items']))
             | HObj kvs \<Rightarrow>
                 (case ref_block h kvs components of
                    Throw e \<Rightarrow> Raise e
                  | Leave \<Rightarrow> Beyond
                  | ReturnSpec \<Rightarrow> Done (spec, h)
                  | Follow rf \<Rightarrow> resolveRefs fuel h rf components
                  | FallThrough \<Rightarrow>
                      run_then (resolveProps fuel h a (map fst kvs) components) (\<lambda>h'.
                      Done (spec, h'))))
          else Done (spec, h))
     | HBuiltin kd m \<Rightarrow>
         (if kd = KArray \<and> m = ''__proto__''
          then Done (HRef (length h), h @ [HArr []])
          else Done (spec, h))
     | _ \<Rightarrow> Done (spec, h))"
| "resolveItems fuel h [] components = Done ([], h)"
| "resolveItems fuel h (item # items) components =
     run_then (resolveRefs fuel h item components) (\<lambda>(item', h').
     run_then (resolveItems fuel h' items components) (\<lambda>(items', h'').
     Done (item' # items', h'')))"
| "resolveProps fuel h a [] components = Done h"
| "resolveProps fuel h a (prp # prps) components =
     run_then (case h_get_prop h (HRef a) prp of Inl e \<Rightarrow> Raise e | Inr v \<Rightarrow> Done v) (\<lambda>v.
     run_then (resolveRefs fuel h v components) (\<lambda>(v', h').
     resolveProps fuel (h_set_prop h' a prp v') a prps components))"
  by pat_completeness auto
termination
  by (relation "measures [\<lambda>x. case x of Inl (fuel, h, spec, c) \<Rightarrow> fuel
                                   | Inr (Inl (fuel, h, items, c)) \<Rightarrow> fuel
                                   | Inr (Inr (fuel, h, a, ps, c)) \<Rightarrow> fuel,
                         \<lambda>x. case x of Inl (fuel, h, spec, c) \<Rightarrow> 0
                                   | Inr (Inl (fuel, h, items, c)) \<Rightarrow> Suc (length items)
                                   | Inr (Inr (fuel, h, a, ps, c)) \<Rightarrow> Suc (length ps)]") auto

declare resolveRefs.simps [simp del]

section \<open>Terms the properties are stated with\<close>

text \<open>The resource tree \<^verbatim>\<open>{ "/pets": { "get": {}, "/{id}": { "get": {} } } }\<close>.\<close>

definition pets_tree :: jsval where
  "pets_tree = JObj [(''/pets'', JObj [(''get'', JObj []), (''/{id}'', JObj [(''get'', JObj [])])])]"

text \<open>
  A document in which the walker reaches a slash-prefixed key whose value is \<^verbatim>\<open>null\<close>
  (or \<^verbatim>\<open>undefined\<close>): at the top level or below other slash-prefixed keys.
\<close>

fun null_resource :: "jsval \<Rightarrow> bool" where
  "null_resource (JObj kvs) =
     list_ex (\<lambda>(k, v). startsWith k ''/'' \<and> (v = JNull \<or> v = JUndef \<or> null_resource v)) kvs"
| "null_resource v = False"

text \<open>The keys of the request object of an item, and the body object of an item.\<close>

definition request_keys :: "jsval \<Rightarrow> exn + string list" where
  "request_keys item = keys (field item ''request'')"

definition body_of :: "jsval \<Rightarrow> jsval" where
  "body_of item = field (field item ''request'') ''body''"

text \<open>
  The payload fields of a body, and the pairing of mode and payload that the builders
  keep: every payload field other than the one the mode names has the value it has in the
  initial body (\<^verbatim>\<open>null\<close> for \<^verbatim>\<open>json\<close>, \<^verbatim>\<open>text\<close> and \<^verbatim>\<open>xml\<close>, \<^verbatim>\<open>[]\<close> for the two forms).
\<close>

definition payload_fields :: "string list" where
  "payload_fields = [''json'', ''text'', ''xml'', ''formUrlEncoded'', ''multipartForm'']"

definition payload_ok :: "(string \<times> jsval) list \<Rightarrow> bool" where
  "payload_ok body =
     list_all (\<lambda>k. map_of body ''mode'' = Some (JStr k) \<or> map_of body k = map_of body_none k)
       payload_fields"

text \<open>Sample inputs: operations and operation descriptors that the properties are tried on.\<close>

definition no_security :: security_config where
  "no_security = \<lparr>supported = [], schemes = None\<rparr>"

definition plain_request :: openapi_request where
  "plain_request =
     \<lparr>rq_method = ''get'', rq_path = ''/pets'', rq_operationObject = JObj [],
      rq_server = JStr ''https://api.example.com'', rq_security = no_security\<rparr>"

definition text_request :: openapi_request where
  "text_request =
     \<lparr>rq_method = ''post'', rq_path = ''/notes'',
      rq_operationObject =
        JObj [(''requestBody'', JObj [(''content'', JObj [(''text/plain'', JObj [])])])],
      rq_server = JStr ''https://api.example.com'', rq_security = no_security\<rparr>"

definition json_example_operation :: jsval where
  "json_example_operation =
     JObj [(''body'', JObj [(''application/json'', JObj []), (''example'', JStr ''{}'')])]"

text \<open>
  The \<^verbatim>\<open>enabled\<close> values of an array of fields, a property of the request object of an
  item, and the \<^verbatim>\<open>required\<close> values a source declares: those of the entries of the map
  \<open>k\<close> of a RAML operation node, and those of the parameters of an OpenAPI operation
  whose \<^verbatim>\<open>in\<close> is \<open>loc\<close>.
\<close>

definition enabled_of :: "jsval \<Rightarrow> jsval list" where
  "enabled_of v = (case v of JArr fs \<Rightarrow> map (\<lambda>f. field f ''enabled'') fs | _ \<Rightarrow> [])"

definition request_field :: "jsval \<Rightarrow> string \<Rightarrow> jsval" where
  "request_field item k = field (field item ''request'') k"

definition declared_required :: "jsval \<Rightarrow> string \<Rightarrow> exn + jsval list" where
  "declared_required properties k =
     and_then (get_prop properties k) (\<lambda>d.
     and_then (entries (js_or d (JObj []))) (traverse (\<lambda>(name, p). get_prop p ''required'')))"

definition parameters_required :: "string \<Rightarrow> jsval \<Rightarrow> exn + jsval list" where
  "parameters_required loc operationObject =
     and_then (get_prop operationObject ''parameters'') (\<lambda>ps.
     traverse (\<lambda>(i, p). get_prop p ''required'')
       (filter (\<lambda>(i, p). get_prop p ''in'' = Inr (JStr loc)) (each_entries (js_or ps (JArr [])))))"

text \<open>The \<^verbatim>\<open>enabled\<close> values of the form entries of a body.\<close>

definition form_enabled :: "jsval \<Rightarrow> jsval list" where
  "form_enabled body = enabled_of (field body ''formUrlEncoded'') @ enabled_of (field body ''multipartForm'')"

definition paged_operation :: jsval where
  "paged_operation = JObj [(''queryParameters'', JObj [(''page'', JObj [])])]"

definition declared_operation :: jsval where
  "declared_operation =
     JObj [(''queryParameters'', JObj [(''page'', JObj [(''required'', JBool True)]),
                                       (''size'', JObj [])]),
           (''headers'', JObj [(''X-Trace'', JObj [(''required'', JBool False)])])]"

definition parameter_request :: openapi_request where
  "parameter_request =
     \<lparr>rq_method = ''get'', rq_path = ''/pets'',
      rq_operationObject =
        JObj [(''parameters'', JArr [JObj [(''in'', JStr ''query''), (''name'', JStr ''q''),
                                           (''required'', JBool True)],
                                     JObj [(''in'', JStr ''header''), (''name'', JStr ''h'')]])],
      rq_server = JStr ''https://api.example.com'', rq_security = no_security\<rparr>"

text \<open>
  The order in which an object enumerates keys that were added in the order \<open>ts\<close>, the
  tags of a list of operations in source order, and the order of first occurrence.
\<close>

fun insert_sorted_key :: "string \<Rightarrow> string list \<Rightarrow> string list" where
  "insert_sorted_key k [] = [k]"
| "insert_sorted_key k (k' # rest) =
     (if is_array_index k' \<and> read_nat k' < read_nat k
      then k' # insert_sorted_key k rest
      else k # k' # rest)"

definition add_key :: "string list \<Rightarrow> string \<Rightarrow> string list" where
  "add_key ks k =
     (if k \<in> set ks then ks else if is_array_index k then insert_sorted_key k ks else ks @ [k])"

definition key_order :: "string list \<Rightarrow> string list" where
  "key_order ts = foldl add_key [] ts"

definition tags_of :: "openapi_request list \<Rightarrow> string list" where
  "tags_of requests =
     concat (map (\<lambda>r. case first_tag r of Inr (Some t) \<Rightarrow> [t] | _ \<Rightarrow> []) requests)"

definition first_occurrences :: "'a list \<Rightarrow> 'a list" where
  "first_occurrences xs = foldl (\<lambda>acc x. if x \<in> set acc then acc else acc @ [x]) [] xs"

text \<open>Sample operation descriptors with a first tag, and one without tags.\<close>

definition tagged_request :: "string \<Rightarrow> string \<Rightarrow> openapi_request" where
  "tagged_request path tag =
     \<lparr>rq_method = ''get'', rq_path = path,
      rq_operationObject = JObj [(''tags'', JArr [JStr tag])],
      rq_server = JStr ''https://api.example.com'', rq_security = no_security\<rparr>"

definition untagged_request :: "string \<Rightarrow> openapi_request" where
  "untagged_request path =
     \<lparr>rq_method = ''get'', rq_path = path, rq_operationObject = JObj [],
      rq_server = JStr ''https://api.example.com'', rq_security = no_security\<rparr>"

text \<open>
  An operation that declares the tags \<open>tags\<close>, in this order. An operation can be filed
  when its first tag can be read and is not the name of a member that every object
  inherits.
\<close>

definition tags_request :: "string \<Rightarrow> string list \<Rightarrow> openapi_request" where
  "tags_request path tags =
     \<lparr>rq_method = ''get'', rq_path = path,
      rq_operationObject = JObj [(''tags'', JArr (map JStr tags))],
      rq_server = JStr ''https://api.example.com'', rq_security = no_security\<rparr>"

definition groupable :: "openapi_request \<Rightarrow> bool" where
  "groupable r =
     (case first_tag r of
        Inl e \<Rightarrow> False
      | Inr None \<Rightarrow> True
      | Inr (Some t) \<Rightarrow> t \<notin> set object_members)"

text \<open>
  Two API documents with a scheme index, without and with a spec-wide security
  requirement, and an operation that declares its own requirement.
\<close>

definition operation_security_spec :: jsval where
  "operation_security_spec =
     JObj [(''components'', JObj [(''securitySchemes'',
              JObj [(''basicAuth'', JObj [(''type'', JStr ''http''), (''scheme'', JStr ''basic'')])])])]"

definition default_security_spec :: jsval where
  "default_security_spec =
     JObj [(''security'', JArr [JObj [(''tokenAuth'', JArr [])]]),
           (''components'', JObj [(''securitySchemes'',
              JObj [(''basicAuth'', JObj [(''type'', JStr ''http''), (''scheme'', JStr ''basic'')]),
                    (''tokenAuth'', JObj [(''type'', JStr ''http''), (''scheme'', JStr ''bearer'')])])])]"

definition secured_operation :: jsval where
  "secured_operation = JObj [(''security'', JArr [JObj [(''basicAuth'', JArr [])]])]"

definition secured_request :: "security_config \<Rightarrow> openapi_request" where
  "secured_request security =
     \<lparr>rq_method = ''get'', rq_path = ''/pets'', rq_operationObject = secured_operation,
      rq_server = JStr ''https://api.example.com'', rq_security = security\<rparr>"

text \<open>The collection that the empty document is parsed to.\<close>

definition empty_collection :: jsval where
  "empty_collection =
     JObj [(''name'', JStr []), (''uid'', JStr (show_nat 0)), (''version'', JStr ''1''),
           (''items'', JArr []), (''environments'', JArr [])]"

text \<open>
  The terms of the resolution of a local reference. A node is a local reference with the
  path \<open>p\<close> when it is an object whose \<^verbatim>\<open>$ref\<close> is the string \<^verbatim>\<open>#/components/\<close> followed by
  \<open>p\<close>. The values that a path of own properties leads through, from a value. A value is
  primitive when it is not an object, and flat when it is primitive or an object without
  \<^verbatim>\<open>$ref\<close> whose properties are primitive.
\<close>

definition local_ref :: "heap \<Rightarrow> nat \<Rightarrow> string \<Rightarrow> bool" where
  "local_ref h a p =
     (a < length h \<and>
      (case h ! a of
         HObj kvs \<Rightarrow> map_of kvs ''$ref'' = Some (HStr (''#/components/'' @ p))
       | HArr xs \<Rightarrow> False))"

fun own_path :: "heap \<Rightarrow> hval \<Rightarrow> string list \<Rightarrow> hval list option" where
  "own_path h v [] = Some []"
| "own_path h v (k # ks) =
     (case h_own h v k of
        None \<Rightarrow> None
      | Some x \<Rightarrow> (case own_path h x ks of None \<Rightarrow> None | Some xs \<Rightarrow> Some (x # xs)))"

fun primitive :: "hval \<Rightarrow> bool" where
  "primitive (HRef a) = False"
| "primitive (HBuiltin kd m) = False"
| "primitive v = True"

definition flat :: "heap \<Rightarrow> hval \<Rightarrow> bool" where
  "flat h v =
     (case v of
        HRef c \<Rightarrow>
          c < length h \<and>
          (case h ! c of
             HObj kvs \<Rightarrow> ''$ref'' \<notin> set (map fst kvs) \<and> distinct (map fst kvs)
                         \<and> list_all (\<lambda>(k, x). primitive x) kvs
           | HArr xs \<Rightarrow> False)
      | HBuiltin kd m \<Rightarrow> False
      | _ \<Rightarrow> True)"

text \<open>
  A store holding a document whose components have a schema \<^verbatim>\<open>Pet\<close>, the boolean schema
  \<^verbatim>\<open>Never: false\<close> and a schema \<^verbatim>\<open>Loop\<close> that refers to itself, and whose paths refer to
  \<^verbatim>\<open>Pet\<close>, to \<^verbatim>\<open>Never\<close>, to a schema \<^verbatim>\<open>Dog\<close> that does not exist, to \<^verbatim>\<open>toString\<close> and to
  \<^verbatim>\<open>toString/name\<close>; the last reference carries components of its own.
\<close>

definition pet_store :: heap where
  "pet_store =
     [HObj [(''components'', HRef 1), (''paths'', HRef 4)],
      HObj [(''schemas'', HRef 2)],
      HObj [(''Pet'', HRef 3), (''Never'', HBool False), (''Loop'', HRef 9)],
      HObj [(''type'', HStr ''object'')],
      HObj [(''pet'', HRef 5), (''never'', HRef 6), (''missing'', HRef 7), (''method'', HRef 8),
            (''inside'', HRef 10), (''own'', HRef 11)],
      HObj [(''$ref'', HStr ''#/components/schemas/Pet'')],
      HObj [(''$ref'', HStr ''#/components/schemas/Never'')],
      HObj [(''$ref'', HStr ''#/components/schemas/Dog'')],
      HObj [(''$ref'', HStr ''#/components/schemas/toString'')],
      HObj [(''$ref'', HStr ''#/components/schemas/Loop'')],
      HObj [(''$ref'', HStr ''#/components/schemas/toString/name'')],
      HObj [(''$ref'', HStr ''#/components/schemas/Pet''), (''components'', HRef 1)]]"

text \<open>
  The uid values of a produced tree, in the order of the tree: of a list of fields, of the
  request of an item (headers, query parameters, request variables and the two kinds of
  form fields), of an item together with the items below it, and of a collection.
\<close>

definition uids_fields :: "jsval \<Rightarrow> jsval list" where
  "uids_fields v = (case v of JArr fs \<Rightarrow> map (\<lambda>f. field f ''uid'') fs | _ \<Rightarrow> [])"

definition uids_request :: "jsval \<Rightarrow> jsval list" where
  "uids_request r =
     uids_fields (field r ''headers'') @ uids_fields (field r ''params'')
     @ uids_fields (field (field r ''vars'') ''req'')
     @ uids_fields (field (field r ''body'') ''formUrlEncoded'')
     @ uids_fields (field (field r ''body'') ''multipartForm'')"

lemma field_smaller: "field item k = v \<Longrightarrow> v \<noteq> JUndef \<Longrightarrow> size v < size item"
proof (cases item)
  case (JObj kvs)
  assume "field item k = v" "v \<noteq> JUndef"
  with JObj have "(k, v) \<in> set kvs"
    by (auto simp: field_def split: option.splits dest: map_of_SomeD)
  then have "size v < Suc (size_list (size_prod (\<lambda>_. 0) size) kvs)"
    by (induction kvs) auto
  with JObj show ?thesis by simp
qed (simp_all add: field_def)

function uids_item :: "jsval \<Rightarrow> jsval list" where
  "uids_item item =
     field item ''uid'' #
     (if field item ''type'' = JStr ''folder''
      then (case field item ''items'' of JArr its \<Rightarrow> concat (map uids_item its) | _ \<Rightarrow> [])
      else uids_request (field item ''request''))"
  by pat_completeness auto
termination
proof (relation "measure size")
  show "wf (measure size)" by simp
next
  fix item :: jsval and its x
  assume "field item ''items'' = JArr its" and "x \<in> set its"
  then have "size x < size (JArr its)" and "size (JArr its) < size item"
    using field_smaller [of item "''items''" "JArr its"]
    by (auto simp: less_Suc_eq_le size_list_estimation')
  then show "(x, item) \<in> measure size" by simp
qed

declare uids_item.simps [simp del]

definition uids_collection :: "jsval \<Rightarrow> jsval list" where
  "uids_collection c =
     field c ''uid'' #
     (case field c ''items'' of JArr its \<Rightarrow> concat (map uids_item its) | _ \<Rightarrow> [])"

text \<open>
  The values \<open>us\<close> are the results of pairwise different calls of the generator, all of
  them among the calls number \<open>n\<close> to \<open>n' - 1\<close>.
\<close>

definition fresh :: "(nat \<Rightarrow> string) \<Rightarrow> nat \<Rightarrow> nat \<Rightarrow> jsval list \<Rightarrow> bool" where
  "fresh g n n' us =
     (n \<le> n' \<and> (\<exists>calls. us = map (\<lambda>i. JStr (g i)) calls \<and> distinct calls
                    \<and> set calls \<subseteq> {n..<n'}))"

text \<open>The values that \<^verbatim>\<open>acc.concat(val)\<close> appends to \<^verbatim>\<open>acc\<close>.\<close>

definition spread :: "jsval \<Rightarrow> jsval list" where
  "spread v = (case v of JArr xs \<Rightarrow> xs | _ \<Rightarrow> [v])"

text \<open>
  A generator that never repeats a value: call number \<open>n\<close> returns \<open>n + 1\<close> strokes. A
  resource tree with a title, a query parameter, a header and a URI parameter, and the
  collection it is parsed to with that generator.
\<close>

definition tally :: "nat \<Rightarrow> string" where
  "tally n = replicate (Suc n) CHR ''I''"

definition orders_tree :: jsval where
  "orders_tree = JObj [(''title'', JStr ''Orders''),
     (''/orders'', JObj [
        (''get'', JObj [(''queryParameters'', JObj [(''page'', JObj [])]),
                        (''headers'', JObj [(''Accept'', JObj [])])]),
        (''/{id}'', JObj [(''delete'', JObj [])])])]"

definition orders_collection :: jsval where
  "orders_collection =
     JObj [(''name'', JStr ''Orders''), (''uid'', JStr (tally 0)), (''version'', JStr ''1''),
       (''items'', JArr [
          JObj [(''uid'', JStr (tally 1)), (''name'', JStr '' orders''), (''type'', JStr ''folder''),
            (''items'', JArr [
               JObj [(''uid'', JStr (tally 2)), (''name'', JStr ''GET orders''),
                 (''type'', JStr ''http-request''),
                 (''request'', JObj [
                    (''url'', JStr ''{{baseUri}}/orders''), (''method'', JStr ''GET''),
                    (''auth'', auth_none),
                    (''headers'', JArr [JObj [(''uid'', JStr (tally 4)), (''name'', JStr ''Accept''),
                       (''value'', JStr []), (''description'', JStr []), (''enabled'', JUndef)]]),
                    (''params'', JArr [JObj [(''uid'', JStr (tally 3)), (''name'', JStr ''page''),
                       (''value'', JStr []), (''description'', JStr []), (''enabled'', JUndef)]]),
                    (''vars'', JObj [(''req'', JArr [])]),
                    (''body'', JObj body_none), (''docs'', JStr [])])],
               JObj [(''uid'', JStr (tally 5)), (''name'', JStr '' {id}''), (''type'', JStr ''folder''),
                 (''items'', JArr [
                    JObj [(''uid'', JStr (tally 6)), (''name'', JStr ''DELETE orders   id''),
                      (''type'', JStr ''http-request''),
                      (''request'', JObj [
                         (''url'', JStr ''{{baseUri}}/orders/{{id}}''), (''method'', JStr ''DELETE''),
                         (''auth'', auth_none), (''headers'', JArr []), (''params'', JArr []),
                         (''vars'', JObj [(''req'', JArr [JObj [(''uid'', JStr (tally 7)),
                            (''name'', JStr ''{{id}}''), (''value'', JStr []),
                            (''local'', JBool False), (''enabled'', JBool True)]])]),
                         (''body'', JObj body_none), (''docs'', JStr [])])]])]])]]),
       (''environments'', JArr [])]"

text \<open>The uids of the two form field lists of a body.\<close>

definition uids_forms :: "(string \<times> jsval) list \<Rightarrow> jsval list" where
  "uids_forms body = uids_fields (field (JObj body) ''formUrlEncoded'')
                     @ uids_fields (field (JObj body) ''multipartForm'')"

text \<open>
  A resource tree of the earlier revision, whose default media type makes the body of the
  request a multipart form with two fields, and the collection it is parsed to.
\<close>

definition signup_tree :: jsval where
  "signup_tree = JObj [(''mediaType'', JStr ''multipart/form-data''),
     (''/signup'', JObj [
        (''post'', JObj [(''body'', JObj [(''properties'',
            JObj [(''name'', JObj [(''required'', JBool True)]), (''photo'', JObj [])])])])])]"

definition signup_collection :: jsval where
  "signup_collection =
     JObj [(''name'', JStr []), (''uid'', JStr (tally 0)), (''version'', JStr ''1''),
       (''items'', JArr [
          JObj [(''uid'', JStr (tally 1)), (''name'', JStr '' signup''), (''type'', JStr ''folder''),
            (''items'', JArr [
               JObj [(''uid'', JStr (tally 2)), (''name'', JStr ''POST signup''),
                 (''type'', JStr ''http-request''),
                 (''request'', JObj [
                    (''url'', JStr ''{{baseUri}}/signup''), (''method'', JStr ''POST''),
                    (''auth'', auth_none), (''headers'', JArr []), (''params'', JArr []),
                    (''vars'', JObj [(''req'', JArr [])]),
                    (''body'', JObj [(''mode'', JStr ''multipartForm''), (''json'', JNull),
                       (''text'', JNull), (''xml'', JNull), (''formUrlEncoded'', JArr []),
                       (''multipartForm'', JArr [
                          JObj [(''uid'', JStr (tally 3)), (''name'', JStr ''name''),
                            (''value'', JStr []), (''description'', JStr []),
                            (''enabled'', JBool True)],
                          JObj [(''uid'', JStr (tally 4)), (''name'', JStr ''photo''),
                            (''value'', JStr []), (''description'', JStr []),
                            (''enabled'', JUndef)]])]),
                    (''docs'', JStr [])])]])]]),
       (''environments'', JArr [])]"

text \<open>
  The mode of a body, its payload (the field that the mode names) and the names of an
  array of fields. What an OpenAPI operation declares for its request body: nothing, or
  the first media type of \<^verbatim>\<open>requestBody.content\<close> with its schema; and whether a schema
  passes the test \<^verbatim>\<open>bodySchema && bodySchema.type === 'object'\<close>.
\<close>

definition mode_of :: "jsval \<Rightarrow> jsval" where
  "mode_of body = field body ''mode''"

definition payload_of :: "jsval \<Rightarrow> jsval" where
  "payload_of body = (case field body ''mode'' of JStr k \<Rightarrow> field body k | _ \<Rightarrow> JUndef)"

definition names_of :: "jsval \<Rightarrow> jsval list" where
  "names_of v = (case v of JArr fs \<Rightarrow> map (\<lambda>f. field f ''name'') fs | _ \<Rightarrow> [])"

definition declared_body :: "jsval \<Rightarrow> exn + (jsval \<times> jsval) option" where
  "declared_body operationObject =
     and_then (get_prop operationObject ''requestBody'') (\<lambda>requestBody.
     if truthy requestBody then
       (let content = lodash_get operationObject [''requestBody'', ''content''] (JObj []) in
        and_then (first_key content) (\<lambda>mimeType.
        and_then (get_prop content (toString mimeType)) (\<lambda>b.
        and_then (get_prop (js_or b (JObj [])) ''schema'') (\<lambda>bodySchema.
        Inr (Some (mimeType, bodySchema))))))
     else Inr None)"

definition object_schema :: "jsval \<Rightarrow> bool" where
  "object_schema bodySchema = (truthy bodySchema \<and> get_prop bodySchema ''type'' = Inr (JStr ''object''))"

text \<open>Sample operations with a form body and with a JSON body of an object schema.\<close>

definition form_operation :: jsval where
  "form_operation =
     JObj [(''body'', JObj [(''multipart/form-data'', JObj []),
                           (''properties'', JObj [(''name'', JObj []), (''photo'', JObj [])])])]"

definition json_schema_request :: openapi_request where
  "json_schema_request =
     \<lparr>rq_method = ''post'', rq_path = ''/pets'',
      rq_operationObject =
        JObj [(''requestBody'', JObj [(''content'', JObj [(''application/json'',
           JObj [(''schema'', JObj [(''type'', JStr ''object''),
                                   (''properties'', JObj [(''name'', JObj [(''type'', JStr ''string'')]),
                                                         (''tags'', JObj [(''type'', JStr ''array'')])])])])])])],
      rq_server = JStr ''https://api.example.com'', rq_security = no_security\<rparr>"

section \<open>Auxiliary lemmas\<close>

lemmas raml_eval =
  parseRamlCollection_def transformRamlNode.simps methods_def toLowerCase_def toLowerChar_def
  startsWith_def createBrunoFolder_def uuid_def replaceAll_def createBrunoRequest_def
  extractUriParameters_def js_or_def split_def queryParameter_fields_def header_fields_def
  ensureUriParameter_def js_concat_def set_prop_def obj_set_def buildApiName_def
  toUpperCase_def toUpperChar_def trim_def is_space_def auth_none_def body_none_def

lemma slash_not_method: "startsWith k ''/'' \<Longrightarrow> toLowerCase k \<notin> set methods"
  by (cases k) (auto simp: startsWith_def toLowerCase_def toLowerChar_def methods_def)

lemma exn_is_TypeError: "(e :: exn) = TypeError"
  by (cases e) simp

lemma mapM_Inl:
  assumes "x \<in> set xs" and "\<And>k. f x k = Inl TypeError"
  shows "mapM f xs n = Inl TypeError"
  using assms(1)
proof (induction xs arbitrary: n)
  case Nil
  then show ?case by simp
next
  case (Cons y ys)
  show ?case
  proof (cases "f y n")
    case (Inl e)
    then show ?thesis by (simp add: exn_is_TypeError [of e])
  next
    case (Inr r)
    obtain z n1 where r: "r = (z, n1)" by (cases r)
    show ?thesis
    proof (cases "x = y")
      case True
      with Inr assms(2) [of n] show ?thesis by simp
    next
      case False
      with Cons have "mapM f ys n1 = Inl TypeError" by simp
      with Inr r show ?thesis by simp
    qed
  qed
qed

lemma null_resource_throws:
  "null_resource ents \<Longrightarrow> transformRamlNode g ents baseUri basePath currentFolder n = Inl TypeError"
proof (induction ents arbitrary: basePath currentFolder n rule: null_resource.induct)
  case (1 kvs)
  then obtain k v where kv: "(k, v) \<in> set kvs" and slash: "startsWith k ''/''"
    and v: "v = JNull \<or> v = JUndef \<or> null_resource v"
    by (auto simp: list_ex_iff)
  let ?f = "\<lambda>(key, val) k.
               if toLowerCase key \<in> set methods
               then createBrunoRequest g key baseUri basePath (js_or val (JObj [])) k
               else if startsWith key ''/''
               then (let (folder, k1) = createBrunoFolder g key k in
                     transformRamlNode g val baseUri (basePath @ ensureUriParameter key) folder k1)
               else Inr (JArr [], k)"
  have "?f (k, v) m = Inl TypeError" for m
  proof -
    have "transformRamlNode g v baseUri p cf m' = Inl TypeError" for p cf m'
      using v
    proof (elim disjE)
      assume "null_resource v"
      with 1 kv slash show ?thesis by blast
    qed (simp_all add: transformRamlNode.simps)
    with slash slash_not_method [OF slash] show ?thesis
      by (simp add: createBrunoFolder_def uuid_def)
  qed
  then have "mapM ?f kvs n = Inl TypeError"
    using kv by (intro mapM_Inl [where x = "(k, v)"]) auto
  then show ?case
    by (simp add: transformRamlNode.simps [of g "JObj kvs"])
qed simp_all

lemma show_nat_hd_digit: "show_nat n \<noteq> [] \<and> hd (show_nat n) \<in> set ''0123456789''"
proof (induction n rule: show_nat.induct)
  case (1 n)
  show ?case
  proof (cases "n < 10")
    case True
    then have "n \<in> {0, 1, 2, 3, 4, 5, 6, 7, 8, 9}" by auto
    then show ?thesis
      by (auto simp: show_nat.simps [of n] digit_char_def)
  next
    case False
    with 1 show ?thesis
      by (simp add: show_nat.simps [of n])
  qed
qed

lemma toLowerChar_digits:
  "toLowerChar CHR ''0'' = CHR ''0''" "toLowerChar CHR ''1'' = CHR ''1''"
  "toLowerChar CHR ''2'' = CHR ''2''" "toLowerChar CHR ''3'' = CHR ''3''"
  "toLowerChar CHR ''4'' = CHR ''4''" "toLowerChar CHR ''5'' = CHR ''5''"
  "toLowerChar CHR ''6'' = CHR ''6''" "toLowerChar CHR ''7'' = CHR ''7''"
  "toLowerChar CHR ''8'' = CHR ''8''" "toLowerChar CHR ''9'' = CHR ''9''"
  by (simp_all add: toLowerChar_def)

lemma toLowerChar_digit: "c \<in> set ''0123456789'' \<Longrightarrow> toLowerChar c = c"
  using toLowerChar_digits by auto

lemma method_hd: "m \<in> set methods \<Longrightarrow> m \<noteq> [] \<and> hd m \<in> set ''gpdoht''"
  by (auto simp: methods_def)

lemma index_key_skipped:
  "toLowerCase (show_nat i) \<notin> set methods \<and> \<not> startsWith (show_nat i) ''/''"
proof -
  obtain c cs where sn: "show_nat i = c # cs" and c: "c \<in> set ''0123456789''"
    using show_nat_hd_digit [of i] by (cases "show_nat i") auto
  have "hd (toLowerCase (show_nat i)) = c"
    using sn toLowerChar_digit [OF c] by (simp add: toLowerCase_def)
  moreover have "c \<notin> set ''gpdoht''" using c by auto
  ultimately have "toLowerCase (show_nat i) \<notin> set methods"
    using method_hd by blast
  moreover have "\<not> startsWith (show_nat i) ''/''"
    using sn c by (auto simp: startsWith_def)
  ultimately show ?thesis by simp
qed

lemma mapM_index_keys:
  "mapM (\<lambda>(key, val) k.
           if toLowerCase key \<in> set methods then f key val k
           else if startsWith key ''/'' then h key val k
           else Inr (JArr [], k)) (map (\<lambda>(i, x). (show_nat i, c x)) ixs) n
   = Inr (replicate (length ixs) (JArr []), n)"
  by (induction ixs) (auto simp: index_key_skipped)

lemma foldl_js_concat_empty: "foldl js_concat acc (replicate m (JArr [])) = acc"
  by (induction m) (simp_all add: js_concat_def)

lemma non_object_resource:
  assumes "v = JNum i \<or> v = JBool b \<or> v = JStr s \<or> v = JArr xs"
  shows "transformRamlNode g v baseUri basePath currentFolder n =
           Inr (if truthy currentFolder then set_prop currentFolder ''items'' (JArr [])
                else JArr [], n)"
  using assms
  apply (elim disjE)
  apply (simp_all add: transformRamlNode.simps mapM_index_keys foldl_js_concat_empty)
  done

lemma mapM_total:
  assumes "\<And>x k. \<exists>y k'. f x k = Inr (y, k')"
  shows "\<exists>ys n'. mapM f xs n = Inr (ys, n')"
proof (induction xs arbitrary: n)
  case Nil
  show ?case by simp
next
  case (Cons x xs)
  obtain y k' where "f x n = Inr (y, k')" using assms by blast
  moreover obtain ys n' where "mapM f xs k' = Inr (ys, n')" using Cons by blast
  ultimately show ?case by simp
qed

lemma extractUriParameters_total: "\<exists>req n'. extractUriParameters g path n = Inr (req, n')"
  unfolding extractUriParameters_def by (rule mapM_total) (simp add: uuid_def)

lemma createBrunoRequest_empty:
  assumes "extractUriParameters g path (Suc n) = Inr (req, n')"
  shows "createBrunoRequest g method baseUri path (JObj []) n =
     Inr (JObj [(''uid'', JStr (g n)),
                (''name'', JStr (buildApiName method path)),
                (''type'', JStr ''http-request''),
                (''request'', JObj [
                   (''url'', JStr (ensureUrl (toString baseUri @ ''/'' @ path))),
                   (''method'', JStr (toUpperCase method)),
                   (''auth'', JObj [(''mode'', JStr ''none''), (''basic'', JNull),
                                    (''bearer'', JNull), (''digest'', JNull)]),
                   (''headers'', JArr []),
                   (''params'', JArr []),
                   (''vars'', JObj [(''req'', JArr req)]),
                   (''body'', JObj [(''mode'', JStr ''none''), (''json'', JNull), (''text'', JNull),
                                    (''xml'', JNull), (''formUrlEncoded'', JArr []),
                                    (''multipartForm'', JArr [])]),
                   (''docs'', JStr [])])], n')"
  using assms
  by (simp add: createBrunoRequest_def uuid_def js_or_def queryParameter_fields_def
      header_fields_def auth_none_def body_none_def)

lemma parse_null_resource:
  "null_resource data \<Longrightarrow>
     parseRamlCollection g data n =
       Inl (BrunoError ''An error occurred while parsing the RAML collection'')"
  by (cases "get_prop data ''baseUri''"; cases "get_prop data ''title''")
     (simp_all add: parseRamlCollection_def uuid_def null_resource_throws)

lemma parse_non_object_resource:
  assumes "startsWith key ''/''" and "v = JNum i \<or> v = JBool b \<or> v = JStr s \<or> v = JArr xs"
  shows "parseRamlCollection g (JObj [(key, v)]) n =
     Inr (JObj [(''name'', JStr []), (''uid'', JStr (g n)), (''version'', JStr ''1''),
                (''items'', JArr [JObj [(''uid'', JStr (g (Suc n))),
                                        (''name'', JStr (replaceAll CHR ''/'' '' '' key)),
                                        (''type'', JStr ''folder''), (''items'', JArr [])]]),
                (''environments'', JArr [])], Suc (Suc n))"
proof -
  have key: "key \<noteq> ''baseUri''" "key \<noteq> ''title''"
    using assms(1) by (auto simp: startsWith_def)
  have "transformRamlNode g v (JStr ''{{baseUri}}'') (ensureUriParameter key) cf (Suc (Suc n)) =
          Inr (if truthy cf then set_prop cf ''items'' (JArr []) else JArr [], Suc (Suc n))" for cf
    using assms(2) by (rule non_object_resource)
  then show ?thesis
    using key assms(1) slash_not_method [OF assms(1)]
    by (simp add: parseRamlCollection_def uuid_def js_or_def createBrunoFolder_def
        transformRamlNode.simps [of g "JObj [(key, v)]"] set_prop_def obj_set_def js_concat_def)
qed

lemma method_null_value:
  assumes "toLowerCase key \<in> set methods"
  shows "\<exists>item n'.
      transformRamlNode g (JObj [(key, JNull)]) baseUri basePath JUndef n = Inr (JArr [item], n')
    \<and> transformRamlNode g (JObj [(key, JObj [])]) baseUri basePath JUndef n = Inr (JArr [item], n')
    \<and> request_keys item = Inr [''url'', ''method'', ''auth'', ''headers'', ''params'', ''vars'', ''body'', ''docs'']
    \<and> field (field item ''request'') ''headers'' = JArr []
    \<and> field (field item ''request'') ''params'' = JArr []
    \<and> field (field item ''request'') ''auth'' = auth_none
    \<and> body_of item = JObj body_none
    \<and> field (field item ''request'') ''docs'' = JStr []"
proof -
  obtain req n' where "extractUriParameters g basePath (Suc n) = Inr (req, n')"
    using extractUriParameters_total by blast
  from createBrunoRequest_empty [OF this] assms show ?thesis
    by (simp add: transformRamlNode.simps [of g "JObj [(key, v)]" for v] js_or_def js_concat_def
        request_keys_def field_def keys_def body_of_def auth_none_def body_none_def)
qed

lemma createBrunoRequest_keys:
  "createBrunoRequest g method baseUri path properties n = Inr (item, n') \<Longrightarrow>
   request_keys item = Inr [''url'', ''method'', ''auth'', ''headers'', ''params'', ''vars'', ''body'', ''docs'']"
  by (auto simp: createBrunoRequest_def and_then_eq_Inr uuid_def request_keys_def keys_def field_def)

lemma createBrunoRequest_v1_keys:
  "createBrunoRequest_v1 g method baseUri path properties mt n = Inr (item, n') \<Longrightarrow>
   request_keys item = Inr [''url'', ''method'', ''auth'', ''headers'', ''params'', ''vars'', ''body'', ''docs'']"
  by (auto simp: createBrunoRequest_v1_def and_then_eq_Inr uuid_def request_keys_def keys_def field_def)

lemma transformOpenapiRequestItem_keys:
  "transformOpenapiRequestItem g request n = Inr (item, n') \<Longrightarrow>
   request_keys item = Inr [''url'', ''method'', ''auth'', ''headers'', ''params'', ''body'']"
  by (auto simp: transformOpenapiRequestItem_def and_then_eq_Inr uuid_def request_keys_def keys_def
      field_def Let_def)

lemma map_of_insert_index_other: "k \<noteq> m \<Longrightarrow> map_of (insert_index m x kvs) k = map_of kvs k"
  by (induction kvs) auto

lemma map_of_insert_index_same: "map_of (insert_index m x kvs) m = Some x"
  by (induction kvs) auto

lemma map_of_update_other:
  "k \<noteq> m \<Longrightarrow> map_of (map (\<lambda>(k', v'). if k' = m then (k', x) else (k', v')) kvs) k = map_of kvs k"
  by (induction kvs) auto

lemma map_of_update_same:
  "m \<in> fst ` set kvs \<Longrightarrow> map_of (map (\<lambda>(k', v'). if k' = m then (k', x) else (k', v')) kvs) m = Some x"
  by (induction kvs) auto

lemma map_of_obj_set_other: "k \<noteq> m \<Longrightarrow> map_of (obj_set kvs m x) k = map_of kvs k"
  by (simp add: obj_set_def map_of_insert_index_other map_of_update_other map_add_def
      split: option.splits)

lemma map_of_obj_set_same:
  assumes "m \<noteq> ''__proto__''"
  shows "map_of (obj_set kvs m x) m = Some x"
proof (cases "m \<in> fst ` set kvs")
  case True
  then show ?thesis by (simp add: obj_set_def map_of_update_same)
next
  case False
  then have "map_of kvs m = None" by (simp add: map_of_eq_None_iff)
  with False assms show ?thesis
    by (simp add: obj_set_def map_of_insert_index_same map_add_def)
qed

lemma payload_ok_none: "payload_ok body_none"
  by (simp add: payload_ok_def payload_fields_def)

lemma payload_ok_mode: "payload_ok (obj_set body_none ''mode'' v)"
  by (simp add: payload_ok_def payload_fields_def map_of_obj_set_other)

lemma payload_ok_set: "payload_ok (obj_set (obj_set body_none ''mode'' (JStr m)) m x)"
proof (cases "m = ''mode''")
  case True
  then show ?thesis
    by (simp add: payload_ok_def payload_fields_def map_of_obj_set_other)
next
  case False
  let ?B = "obj_set (obj_set body_none ''mode'' (JStr m)) m x"
  have mode: "map_of ?B ''mode'' = Some (JStr m)"
    using False by (simp add: map_of_obj_set_other map_of_obj_set_same)
  have each: "map_of ?B ''mode'' = Some (JStr k) \<or> map_of ?B k = map_of body_none k"
    if "k \<noteq> ''mode''" for k
    using that mode by (cases "k = m") (simp_all add: map_of_obj_set_other)
  show ?thesis
    by (simp add: payload_ok_def payload_fields_def each)
qed

lemma payload_ok_undefined:
  "payload_ok (obj_set (obj_set body_none ''mode'' JUndef) ''undefined'' x)"
  by (simp add: payload_ok_def payload_fields_def map_of_obj_set_other)

lemma raml_fill_body_payload:
  assumes "raml_fill_body g properties body bodyMode n = Inr (b, n')"
    and "bodyMode = JUndef \<or> (\<exists>m. bodyMode = JStr m)"
  shows "payload_ok b"
  using assms
  by (auto simp: raml_fill_body_def and_then_eq_Inr Let_def payload_ok_set payload_ok_undefined
      split: if_splits)

lemma raml_body_payload:
  assumes "raml_body g properties mt n = Inr (body, n')"
  shows "payload_ok body"
proof -
  have fill: "payload_ok bo"
    if "raml_fill_body g p b (case map_of bodyModeMapping s of Some m \<Rightarrow> JStr m | None \<Rightarrow> JUndef) k
          = Inr (bo, k')" for p b s k bo k'
    using that by (rule raml_fill_body_payload) (simp split: option.splits)
  show ?thesis
    using assms
    by (auto simp: raml_body_def and_then_eq_Inr payload_ok_none split: if_splits dest: fill)
qed

lemma openapi_fill_body_payload:
  assumes "openapi_fill_body g mimeType bodySchema n = Inr (b, n')"
  shows "payload_ok b"
proof -
  consider (json) "mimeType = JStr ''application/json''"
    | (urlenc) "mimeType = JStr ''application/x-www-form-urlencoded''"
    | (multi) "mimeType = JStr ''multipart/form-data''"
    | (plain) "mimeType = JStr ''text/plain''"
    | (xml) "mimeType = JStr ''text/xml''"
    | (other) "mimeType \<noteq> JStr ''application/json''"
        "mimeType \<noteq> JStr ''application/x-www-form-urlencoded''"
        "mimeType \<noteq> JStr ''multipart/form-data''"
        "mimeType \<noteq> JStr ''text/plain''" "mimeType \<noteq> JStr ''text/xml''"
    by blast
  then show ?thesis
  proof cases
    case json
    with assms show ?thesis
      by (auto simp: openapi_fill_body_def Let_def and_then_eq_Inr payload_ok_set payload_ok_mode split: if_splits)
  next
    case urlenc
    with assms show ?thesis
      by (auto simp: openapi_fill_body_def Let_def and_then_eq_Inr payload_ok_set payload_ok_mode split: if_splits)
  next
    case multi
    with assms show ?thesis
      by (auto simp: openapi_fill_body_def Let_def and_then_eq_Inr payload_ok_set payload_ok_mode split: if_splits)
  next
    case plain
    with assms show ?thesis
      by (auto simp: openapi_fill_body_def Let_def and_then_eq_Inr payload_ok_set)
  next
    case xml
    with assms show ?thesis
      by (auto simp: openapi_fill_body_def Let_def and_then_eq_Inr payload_ok_set)
  next
    case other
    with assms show ?thesis
      by (auto simp: openapi_fill_body_def Let_def and_then_eq_Inr payload_ok_none)
  qed
qed

lemma openapi_body_payload:
  assumes "openapi_body g operationObject n = Inr (body, n')"
  shows "payload_ok body"
  using assms
  by (auto simp: openapi_body_def and_then_eq_Inr Let_def payload_ok_none split: if_splits
      intro: openapi_fill_body_payload)

lemmas openapi_eval =
  transformOpenapiRequestItem_def select_auth_def map_auth_def openapi_body_def
  openapi_fill_body_def uuid_def js_or_def no_security_def lodash_get_def first_key_def keys_def
  toUpperCase_def toUpperChar_def auth_none_def body_none_def obj_set_def Let_def

lemma text_eval:
  "transformOpenapiRequestItem show_nat text_request 0 =
     Inr (JObj [(''uid'', JStr (show_nat 0)), (''name'', JStr ''post /notes''),
                (''type'', JStr ''http-request''),
                (''request'', JObj
                   [(''url'', JStr ''https://api.example.com/notes''), (''method'', JStr ''POST''),
                    (''auth'', JObj [(''mode'', JStr ''none''), (''basic'', JNull),
                                     (''bearer'', JNull), (''digest'', JNull)]),
                    (''headers'', JArr []), (''params'', JArr []),
                    (''body'', JObj [(''mode'', JStr ''text''), (''json'', JNull),
                                     (''text'', JStr []), (''xml'', JNull),
                                     (''formUrlEncoded'', JArr []),
                                     (''multipartForm'', JArr [])])])], Suc 0)"
  by (simp add: openapi_eval text_request_def)

lemmas v1_eval =
  createBrunoRequest_v1_def raml_body_def raml_mediaType_def raml_fill_body_def bodyModeMapping_def
  body_fields_def lodash_get_def

lemma json_example_eval:
  "createBrunoRequest_v1 show_nat ''post'' (JStr ''{{baseUri}}'') ''/pets'' json_example_operation JUndef 0 =
     Inr (JObj [(''uid'', JStr (show_nat 0)), (''name'', JStr ''POST pets''),
                (''type'', JStr ''http-request''),
                (''request'', JObj
                   [(''url'', JStr ''{{baseUri}}/pets''), (''method'', JStr ''POST''),
                    (''auth'', JObj [(''mode'', JStr ''none''), (''basic'', JNull),
                                     (''bearer'', JNull), (''digest'', JNull)]),
                    (''headers'', JArr []), (''params'', JArr []),
                    (''vars'', JObj [(''req'', JArr [])]),
                    (''body'', JObj [(''mode'', JStr ''json''), (''json'', JStr ''{}''),
                                     (''text'', JNull), (''xml'', JNull),
                                     (''formUrlEncoded'', JArr []),
                                     (''multipartForm'', JArr [])]),
                    (''docs'', JStr [])])], Suc 0)"
  by (simp add: v1_eval raml_eval json_example_operation_def)

lemma body_of_v1:
  "createBrunoRequest_v1 g method baseUri path properties mt n = Inr (item, n') \<Longrightarrow>
   \<exists>body. body_of item = JObj body \<and> payload_ok body"
  by (auto simp: createBrunoRequest_v1_def and_then_eq_Inr uuid_def body_of_def field_def
      dest: raml_body_payload)

lemma body_of_openapi:
  "transformOpenapiRequestItem g request n = Inr (item, n') \<Longrightarrow>
   \<exists>body. body_of item = JObj body \<and> payload_ok body"
  by (auto simp: transformOpenapiRequestItem_def and_then_eq_Inr uuid_def body_of_def field_def Let_def
      dest: openapi_body_payload)

lemma body_of_v2:
  "createBrunoRequest g method baseUri path properties n = Inr (item, n') \<Longrightarrow>
   body_of item = JObj body_none"
  by (auto simp: createBrunoRequest_def and_then_eq_Inr uuid_def body_of_def field_def)

lemma mapM_traverse:
  assumes "\<And>x k y k'. f x k = Inr (y, k') \<Longrightarrow> h x = Inr (e y)"
    and "mapM f xs n = Inr (ys, n')"
  shows "traverse h xs = Inr (map e ys)"
  using assms(2)
proof (induction xs arbitrary: n ys)
  case Nil
  then show ?case by simp
next
  case (Cons x xs)
  from Cons.prems obtain y k zs where fx: "f x n = Inr (y, k)" and rest: "mapM f xs k = Inr (zs, n')"
    and ys: "ys = y # zs"
    by (auto split: sum.splits prod.splits)
  from assms(1) [OF fx] Cons.IH [OF rest] ys show ?case by simp
qed

lemma queryParameter_fields_enabled:
  "queryParameter_fields g kvs n = Inr (fs, n') \<Longrightarrow>
   traverse (\<lambda>(name, p). get_prop p ''required'') kvs = Inr (map (\<lambda>f. field f ''enabled'') fs)"
  unfolding queryParameter_fields_def
  by (erule mapM_traverse [rotated]) (auto simp: uuid_def and_then_eq_Inr field_def)

lemma header_fields_enabled:
  "header_fields g kvs n = Inr (fs, n') \<Longrightarrow>
   traverse (\<lambda>(name, p). get_prop p ''required'') kvs = Inr (map (\<lambda>f. field f ''enabled'') fs)"
  unfolding header_fields_def
  by (erule mapM_traverse [rotated]) (auto simp: uuid_def and_then_eq_Inr field_def)

lemma body_fields_enabled:
  "body_fields g kvs n = Inr (fs, n') \<Longrightarrow>
   traverse (\<lambda>(name, p). get_prop p ''required'') kvs = Inr (map (\<lambda>f. field f ''enabled'') fs)"
  unfolding body_fields_def
  by (erule mapM_traverse [rotated]) (auto simp: uuid_def and_then_eq_Inr field_def)

lemma schema_fields_enabled:
  "schema_fields g kvs n = Inr (fs, n') \<Longrightarrow> list_all (\<lambda>f. field f ''enabled'' = JBool True) fs"
proof -
  assume a: "schema_fields g kvs n = Inr (fs, n')"
  have "traverse (\<lambda>x. Inr (JBool True) :: exn + jsval) kvs = Inr (map (\<lambda>f. field f ''enabled'') fs)"
    using a unfolding schema_fields_def
    by (elim mapM_traverse [rotated]) (auto simp: uuid_def and_then_eq_Inr field_def)
  moreover have "traverse (\<lambda>x. Inr (JBool True) :: exn + jsval) xs = Inr (replicate (length xs) (JBool True))"
    for xs :: "(jsval \<times> jsval) list"
    by (induction xs) simp_all
  ultimately have "map (\<lambda>f. field f ''enabled'') fs = replicate (length kvs) (JBool True)"
    by simp
  then have "\<forall>e \<in> set (map (\<lambda>f. field f ''enabled'') fs). e = JBool True"
    by (metis in_set_replicate)
  then show ?thesis by (simp add: list_all_iff)
qed

lemma parameter_fields_enabled:
  "parameter_fields g ps (hs, qs) n = Inr ((hs', qs'), n') \<Longrightarrow>
   \<exists>hs2 qs2. hs' = hs @ hs2 \<and> qs' = qs @ qs2
     \<and> traverse (\<lambda>(i, p). get_prop p ''required'')
          (filter (\<lambda>(i, p). get_prop p ''in'' = Inr (JStr ''header'')) ps)
         = Inr (map (\<lambda>f. field f ''enabled'') hs2)
     \<and> traverse (\<lambda>(i, p). get_prop p ''required'')
          (filter (\<lambda>(i, p). get_prop p ''in'' = Inr (JStr ''query'')) ps)
         = Inr (map (\<lambda>f. field f ''enabled'') qs2)"
proof (induction ps arbitrary: hs qs n)
  case Nil
  then show ?case by simp
next
  case (Cons ip ps)
  obtain i p where ip: "ip = (i, p)" by (cases ip)
  from Cons.prems ip obtain loc where loc: "get_prop p ''in'' = Inr loc"
    by (auto simp: and_then_eq_Inr)
  consider (query) "loc = JStr ''query''" | (header) "loc = JStr ''header''"
    | (other) "loc \<noteq> JStr ''query''" "loc \<noteq> JStr ''header''"
    by blast
  then show ?case
  proof cases
    case query
    with Cons.prems ip loc obtain name description required where
      r: "get_prop p ''required'' = Inr required"
      and rest: "parameter_fields g ps (hs, qs @ [JObj [(''uid'', JStr (g n)), (''name'', name),
            (''value'', JStr []), (''description'', js_or description (JStr [])),
            (''enabled'', required)]]) (Suc n) = Inr ((hs', qs'), n')"
      by (auto simp: and_then_eq_Inr uuid_def Let_def)
    from Cons.IH [OF rest] query ip loc r show ?thesis
      by (auto simp: field_def)
  next
    case header
    with Cons.prems ip loc obtain name description required where
      r: "get_prop p ''required'' = Inr required"
      and rest: "parameter_fields g ps (hs @ [JObj [(''uid'', JStr (g n)), (''name'', name),
            (''value'', JStr []), (''description'', js_or description (JStr [])),
            (''enabled'', required)]], qs) (Suc n) = Inr ((hs', qs'), n')"
      by (auto simp: and_then_eq_Inr uuid_def Let_def)
    from Cons.IH [OF rest] header ip loc r show ?thesis
      by (auto simp: field_def)
  next
    case other
    with Cons.prems ip loc have "parameter_fields g ps (hs, qs) n = Inr ((hs', qs'), n')"
      by (auto simp: and_then_eq_Inr)
    from Cons.IH [OF this] other ip loc show ?thesis
      by auto
  qed
qed

lemma createBrunoRequest_enabled:
  assumes "createBrunoRequest g method baseUri path properties n = Inr (item, n')"
  shows "declared_required properties ''queryParameters'' = Inr (enabled_of (request_field item ''params''))
       \<and> declared_required properties ''headers'' = Inr (enabled_of (request_field item ''headers''))"
  using assms
  by (auto simp: createBrunoRequest_def and_then_eq_Inr uuid_def declared_required_def enabled_of_def
      request_field_def field_def dest!: queryParameter_fields_enabled header_fields_enabled)

lemma createBrunoRequest_v1_enabled:
  assumes "createBrunoRequest_v1 g method baseUri path properties mt n = Inr (item, n')"
  shows "declared_required properties ''queryParameters'' = Inr (enabled_of (request_field item ''params''))
       \<and> declared_required properties ''headers'' = Inr (enabled_of (request_field item ''headers''))"
  using assms
  by (auto simp: createBrunoRequest_v1_def and_then_eq_Inr uuid_def declared_required_def enabled_of_def
      request_field_def field_def dest!: queryParameter_fields_enabled header_fields_enabled)

lemma openapi_fill_body_enabled:
  assumes "openapi_fill_body g mimeType bodySchema n = Inr (b, n')"
  shows "list_all (\<lambda>e. e = JBool True) (form_enabled (JObj b))"
proof -
  have en: "list_all (\<lambda>e. e = JBool True) (map (\<lambda>f. field f ''enabled'') fs)"
    if "schema_fields g kvs k = Inr (fs, k')" for kvs k fs k'
    using schema_fields_enabled [OF that] by (simp add: list_all_iff)
  consider (json) "mimeType = JStr ''application/json''"
    | (urlenc) "mimeType = JStr ''application/x-www-form-urlencoded''"
    | (multi) "mimeType = JStr ''multipart/form-data''"
    | (plain) "mimeType = JStr ''text/plain''"
    | (xml) "mimeType = JStr ''text/xml''"
    | (other) "mimeType \<noteq> JStr ''application/json''"
        "mimeType \<noteq> JStr ''application/x-www-form-urlencoded''"
        "mimeType \<noteq> JStr ''multipart/form-data''"
        "mimeType \<noteq> JStr ''text/plain''" "mimeType \<noteq> JStr ''text/xml''"
    by blast
  then show ?thesis
  proof cases
    case json
    with assms show ?thesis
      by (auto simp: openapi_fill_body_def Let_def and_then_eq_Inr form_enabled_def enabled_of_def
          field_def obj_set_def body_none_def split: if_splits)
  next
    case urlenc
    with assms show ?thesis
      by (auto simp: openapi_fill_body_def Let_def and_then_eq_Inr form_enabled_def enabled_of_def
          field_def obj_set_def body_none_def split: if_splits dest: en)
  next
    case multi
    with assms show ?thesis
      by (auto simp: openapi_fill_body_def Let_def and_then_eq_Inr form_enabled_def enabled_of_def
          field_def obj_set_def body_none_def split: if_splits dest: en)
  next
    case plain
    with assms show ?thesis
      by (auto simp: openapi_fill_body_def Let_def and_then_eq_Inr form_enabled_def enabled_of_def
          field_def obj_set_def body_none_def)
  next
    case xml
    with assms show ?thesis
      by (auto simp: openapi_fill_body_def Let_def and_then_eq_Inr form_enabled_def enabled_of_def
          field_def obj_set_def body_none_def)
  next
    case other
    with assms show ?thesis
      by (auto simp: openapi_fill_body_def Let_def and_then_eq_Inr form_enabled_def enabled_of_def
          field_def obj_set_def body_none_def)
  qed
qed

lemma openapi_body_enabled:
  assumes "openapi_body g operationObject n = Inr (b, n')"
  shows "list_all (\<lambda>e. e = JBool True) (form_enabled (JObj b))"
  using assms
  by (auto simp: openapi_body_def and_then_eq_Inr Let_def split: if_splits
      dest: openapi_fill_body_enabled)
     (simp add: form_enabled_def enabled_of_def field_def body_none_def)

lemma map_auth_headers:
  assumes "map_auth g auth hdrs n = Inr ((a, hdrs'), n')"
  shows "enabled_of (JArr hdrs') = enabled_of (JArr hdrs)
       \<or> enabled_of (JArr hdrs') = enabled_of (JArr hdrs) @ [JBool True]"
  using assms
  by (auto simp: map_auth_def and_then_eq_Inr uuid_def enabled_of_def field_def split: if_splits)

lemma transformOpenapiRequestItem_enabled:
  assumes "transformOpenapiRequestItem g request n = Inr (item, n')"
  shows "parameters_required ''query'' (rq_operationObject request)
           = Inr (enabled_of (request_field item ''params''))
       \<and> (\<exists>req. parameters_required ''header'' (rq_operationObject request) = Inr req
             \<and> (enabled_of (request_field item ''headers'') = req
                \<or> enabled_of (request_field item ''headers'') = req @ [JBool True]))
       \<and> list_all (\<lambda>e. e = JBool True) (form_enabled (body_of item))"
proof -
  from assms obtain parameters hs qs n2 auth a hs' n3 b where
    ps: "get_prop (rq_operationObject request) ''parameters'' = Inr parameters"
    and pf: "parameter_fields g (each_entries (js_or parameters (JArr []))) ([], []) (Suc n)
               = Inr ((hs, qs), n2)"
    and ma: "map_auth g auth hs n2 = Inr ((a, hs'), n3)"
    and ob: "openapi_body g (rq_operationObject request) n3 = Inr (b, n')"
    and hdrs: "request_field item ''headers'' = JArr hs'"
    and params: "request_field item ''params'' = JArr qs"
    and body: "body_of item = JObj b"
    by (auto simp: transformOpenapiRequestItem_def and_then_eq_Inr uuid_def Let_def request_field_def
        body_of_def field_def)
  from parameter_fields_enabled [OF pf]
  have h: "traverse (\<lambda>(i, p). get_prop p ''required'')
            (filter (\<lambda>(i, p). get_prop p ''in'' = Inr (JStr ''header''))
               (each_entries (js_or parameters (JArr [])))) = Inr (map (\<lambda>f. field f ''enabled'') hs)"
    and q: "traverse (\<lambda>(i, p). get_prop p ''required'')
            (filter (\<lambda>(i, p). get_prop p ''in'' = Inr (JStr ''query''))
               (each_entries (js_or parameters (JArr [])))) = Inr (map (\<lambda>f. field f ''enabled'') qs)"
    by auto
  have "parameters_required ''query'' (rq_operationObject request)
           = Inr (enabled_of (request_field item ''params''))"
    using ps q params by (simp add: parameters_required_def enabled_of_def)
  moreover have "parameters_required ''header'' (rq_operationObject request)
           = Inr (enabled_of (JArr hs))"
    using ps h by (simp add: parameters_required_def enabled_of_def)
  moreover note map_auth_headers [OF ma] openapi_body_enabled [OF ob]
  ultimately show ?thesis
    using hdrs body by auto
qed

lemma declared_eval:
  "\<exists>item n'. createBrunoRequest show_nat ''get'' (JStr ''{{baseUri}}'') ''/pets'' declared_operation 0
               = Inr (item, n')
     \<and> enabled_of (request_field item ''params'') = [JBool True, JUndef]
     \<and> enabled_of (request_field item ''headers'') = [JBool False]"
  by (simp add: raml_eval declared_operation_def enabled_of_def request_field_def field_def)

lemma declared_v1_eval:
  "\<exists>item n'. createBrunoRequest_v1 show_nat ''get'' (JStr ''{{baseUri}}'') ''/pets'' declared_operation
                JUndef 0 = Inr (item, n')
     \<and> enabled_of (request_field item ''params'') = [JBool True, JUndef]
     \<and> enabled_of (request_field item ''headers'') = [JBool False]"
  by (simp add: v1_eval raml_eval declared_operation_def enabled_of_def request_field_def field_def)

lemma parameter_eval:
  "\<exists>item n'. transformOpenapiRequestItem show_nat parameter_request 0 = Inr (item, n')
     \<and> enabled_of (request_field item ''params'') = [JBool True]
     \<and> enabled_of (request_field item ''headers'') = [JUndef]"
  by (simp add: openapi_eval parameter_request_def enabled_of_def request_field_def field_def)

lemmas security_eval =
  getSecurity_def lodash_get_def keys_def first_key_def js_or_def getScheme_def

lemma operation_security_with_default:
  "getSecurity default_security_spec =
     Inr \<lparr>supported = [JObj [(''type'', JStr ''http''), (''scheme'', JStr ''bearer'')]],
          schemes = Some (JObj [(''basicAuth'', JObj [(''type'', JStr ''http''), (''scheme'', JStr ''basic'')]),
                                (''tokenAuth'', JObj [(''type'', JStr ''http''), (''scheme'', JStr ''bearer'')])])\<rparr>"
  by (simp add: security_eval default_security_spec_def)

lemma select_auth_cases:
  assumes "get_prop (rq_operationObject request) ''security'' = Inr security"
  shows "truthy security \<Longrightarrow> get_prop security ''length'' = Inr len \<Longrightarrow> js_gt0 len = Inr True \<Longrightarrow>
           get_prop security ''0'' = Inr requirement \<Longrightarrow> first_key requirement = Inr schemeName \<Longrightarrow>
           select_auth request = getScheme (rq_security request) schemeName"
    and "\<not> truthy security \<Longrightarrow> supported (rq_security request) = s # ss \<Longrightarrow>
           select_auth request = Inr s"
    and "\<not> truthy security \<Longrightarrow> supported (rq_security request) = [] \<Longrightarrow>
           select_auth request = Inr JUndef"
  using assms by (simp_all add: select_auth_def)

lemma failure_text_cases:
  "failure_text (BrunoError m) = Inr m"
  "failure_text (ExternalError JUndef) = Inl TypeError"
  "failure_text (ExternalError JNull) = Inl TypeError"
  "failure_text (ExternalError (JObj [(''message'', JStr m)])) = Inr m"
  by (simp_all add: failure_text_def err_message_def)

lemma importCollection_rejected:
  assumes "importCollection g n fileDialog read safeLoad tr hy va = Rejected e"
  shows "\<exists>m. e = BrunoError (''Import collection failed: '' @ m)"
  using assms unfolding importCollection_def
  by (auto split: promise.splits sum.splits)

lemma parse_error_message:
  "parseRamlCollection g data n = Inl e \<Longrightarrow>
   e = BrunoError ''An error occurred while parsing the RAML collection''"
  by (auto simp: parseRamlCollection_def split: sum.splits)

lemma parse_empty: "parseRamlCollection show_nat (JObj []) 0 = Inr (empty_collection, Suc 0)"
  by (simp add: raml_eval empty_collection_def)

lemma parse_null:
  "parseRamlCollection show_nat JNull 0
     = Inl (BrunoError ''An error occurred while parsing the RAML collection'')"
  by (simp add: parseRamlCollection_def)

lemma keys_insert_index: "map fst (insert_index k v kvs) = insert_sorted_key k (map fst kvs)"
  by (induction kvs) auto

lemma keys_update:
  "map fst (map (\<lambda>(k', v'). if k' = k then (k', v) else (k', v')) kvs) = map fst kvs"
  by (induction kvs) auto

lemma keys_obj_set: "k \<noteq> ''__proto__'' \<Longrightarrow> map fst (obj_set kvs k v) = add_key (map fst kvs) k"
  by (auto simp: obj_set_def add_key_def keys_insert_index keys_update)

lemma map_of_None_keys: "map_of kvs k = None \<longleftrightarrow> k \<notin> set (map fst kvs)"
  by (simp add: map_of_eq_None_iff)

lemma add_key_idem: "k \<in> set ks \<Longrightarrow> add_key ks k = ks"
  by (simp add: add_key_def)

lemma set_insert_sorted_key: "set (insert_sorted_key k ks) = insert k (set ks)"
  by (induction ks) auto

lemma set_add_key: "set (add_key ks k) = insert k (set ks)"
  by (auto simp: add_key_def set_insert_sorted_key)

lemma distinct_insert_sorted_key: "k \<notin> set ks \<Longrightarrow> distinct ks \<Longrightarrow> distinct (insert_sorted_key k ks)"
  by (induction ks) (auto simp: set_insert_sorted_key)

lemma distinct_add_key: "distinct ks \<Longrightarrow> distinct (add_key ks k)"
  by (auto simp: add_key_def distinct_insert_sorted_key)

lemma proto_member: "''__proto__'' \<in> set object_members"
  by (simp add: object_members_def)

lemma push_to_group_member:
  assumes "t \<in> set object_members" and "set (map fst G) \<inter> set object_members = {}"
  shows "push_to_group G t r = Inl TypeError"
proof -
  from assms have "t \<notin> set (map fst G)" by blast
  then have "map_of G t = None" by (simp add: map_of_eq_None_iff)
  with assms(1) show ?thesis by (simp add: push_to_group_def)
qed

lemma push_to_group_other:
  assumes "t \<notin> set object_members"
  shows "push_to_group G t r =
     Inr (obj_set (case map_of G t of None \<Rightarrow> obj_set G t [] | Some xs \<Rightarrow> G) t
            ((case map_of G t of Some xs \<Rightarrow> xs | None \<Rightarrow> []) @ [r]))"
proof -
  from assms proto_member have "t \<noteq> ''__proto__''" by blast
  then show ?thesis
    using assms by (cases "map_of G t") (simp_all add: push_to_group_def)
qed

lemma keys_push_to_group:
  assumes "push_to_group G t r = Inr G'" and "t \<notin> set object_members"
  shows "map fst G' = add_key (map fst G) t"
proof -
  from assms(2) proto_member have t: "t \<noteq> ''__proto__''" by blast
  show ?thesis
  proof (cases "map_of G t")
    case None
    with assms t show ?thesis
      by (auto simp: push_to_group_def keys_obj_set add_key_idem set_add_key)
  next
    case (Some xs)
    then have mem: "t \<in> set (map fst G)"
      using map_of_None_keys [of G t] by simp
    from Some assms(1) have "G' = obj_set G t (xs @ [r])"
      by (simp add: push_to_group_def)
    then show ?thesis
      by (simp add: keys_obj_set [OF t] add_key_idem [OF mem])
  qed
qed

lemma map_of_push_to_group:
  assumes "push_to_group G t r = Inr G'" and "t \<notin> set object_members"
  shows "map_of G' t' =
     (if t' = t then Some ((case map_of G t of Some xs \<Rightarrow> xs | None \<Rightarrow> []) @ [r]) else map_of G t')"
proof -
  from assms(2) proto_member have t: "t \<noteq> ''__proto__''" by blast
  from assms t show ?thesis
    by (cases "map_of G t")
      (auto simp: push_to_group_def map_of_obj_set_same map_of_obj_set_other)
qed

lemma group_step_tagged:
  "first_tag r = Inr (Some t) \<Longrightarrow>
   group_step (G, U) r = and_then (push_to_group G t r) (\<lambda>G'. Inr (G', U))"
  by (simp add: group_step_def)

lemma group_step_untagged:
  "first_tag r = Inr None \<Longrightarrow> group_step (G, U) r = Inr (G, U @ [r])"
  by (simp add: group_step_def)

lemma group_step_Inr:
  assumes "group_step (G, U) r = Inr acc" and "set (map fst G) \<inter> set object_members = {}"
  obtains t G' where "first_tag r = Inr (Some t)" "t \<notin> set object_members"
      "push_to_group G t r = Inr G'" "acc = (G', U)"
    | "first_tag r = Inr None" "acc = (G, U @ [r])"
proof (cases "first_tag r")
  case (Inl e)
  with assms(1) show ?thesis by (simp add: group_step_def)
next
  case (Inr tg)
  show ?thesis
  proof (cases tg)
    case None
    with Inr assms(1) that(2) show ?thesis by (simp add: group_step_def)
  next
    case (Some t)
    with Inr assms(1) obtain G' where p: "push_to_group G t r = Inr G'" and acc: "acc = (G', U)"
      by (auto simp: group_step_def and_then_eq_Inr)
    have "t \<notin> set object_members"
    proof
      assume "t \<in> set object_members"
      from push_to_group_member [OF this assms(2)] p show False by simp
    qed
    with Inr Some p acc that(1) show ?thesis by simp
  qed
qed

lemma foldM_group_step:
  assumes "foldM group_step rs (G, U) = Inr (G', U')"
    and "set (map fst G) \<inter> set object_members = {}"
  shows "U' = U @ filter (\<lambda>r. first_tag r = Inr None) rs
       \<and> map fst G' = foldl add_key (map fst G) (tags_of rs)
       \<and> (\<forall>t. map_of G' t =
            (if filter (\<lambda>r. first_tag r = Inr (Some t)) rs = [] then map_of G t
             else Some ((case map_of G t of Some xs \<Rightarrow> xs | None \<Rightarrow> [])
                        @ filter (\<lambda>r. first_tag r = Inr (Some t)) rs)))
       \<and> list_all (\<lambda>t. t \<notin> set object_members) (tags_of rs)"
  using assms
proof (induction rs arbitrary: G U)
  case Nil
  then show ?case by (simp add: tags_of_def)
next
  case (Cons r rs)
  from Cons.prems(1) obtain acc where step: "group_step (G, U) r = Inr acc"
    and rest: "foldM group_step rs acc = Inr (G', U')"
    by (auto simp: and_then_eq_Inr)
  from step Cons.prems(2) show ?case
  proof (cases rule: group_step_Inr)
    case (1 t G1)
    have keys: "map fst G1 = add_key (map fst G) t"
      using 1(3,2) by (rule keys_push_to_group)
    with Cons.prems(2) 1(2) have inv: "set (map fst G1) \<inter> set object_members = {}"
      by (auto simp: set_add_key)
    note ih = Cons.IH [OF rest [unfolded 1(4)] inv]
    note m = map_of_push_to_group [OF 1(3,2)]
    from ih 1(1,2) keys m show ?thesis
      by (auto simp: tags_of_def)
  next
    case 2
    note ih = Cons.IH [OF rest [unfolded 2(2)] Cons.prems(2)]
    from ih 2(1) show ?thesis
      by (auto simp: tags_of_def)
  qed
qed

lemma foldM_group_step_total:
  assumes "list_all groupable rs" and "set (map fst G) \<inter> set object_members = {}"
  shows "\<exists>G' U'. foldM group_step rs (G, U) = Inr (G', U')"
  using assms
proof (induction rs arbitrary: G U)
  case Nil
  show ?case by simp
next
  case (Cons r rs)
  from Cons.prems(1) have r: "groupable r" and rs: "list_all groupable rs" by simp_all
  from r consider "first_tag r = Inr None"
    | t where "first_tag r = Inr (Some t)" "t \<notin> set object_members"
    by (auto simp: groupable_def split: sum.splits option.splits)
  then show ?case
  proof cases
    case 1
    then have "group_step (G, U) r = Inr (G, U @ [r])" by (rule group_step_untagged)
    with Cons.IH [OF rs Cons.prems(2), of "U @ [r]"] show ?thesis by simp
  next
    case (2 t)
    let ?G1 = "obj_set (case map_of G t of None \<Rightarrow> obj_set G t [] | Some xs \<Rightarrow> G) t
            ((case map_of G t of Some xs \<Rightarrow> xs | None \<Rightarrow> []) @ [r])"
    have p: "push_to_group G t r = Inr ?G1" using 2(2) by (rule push_to_group_other)
    then have step: "group_step (G, U) r = Inr (?G1, U)"
      using 2(1) by (simp add: group_step_tagged)
    have "map fst ?G1 = add_key (map fst G) t" using p 2(2) by (rule keys_push_to_group)
    with Cons.prems(2) 2(2) have "set (map fst ?G1) \<inter> set object_members = {}"
      by (auto simp: set_add_key)
    from Cons.IH [OF rs this, of U] step show ?thesis by simp
  qed
qed

lemma foldM_group_step_fails:
  assumes "\<not> list_all groupable rs" and "set (map fst G) \<inter> set object_members = {}"
  shows "foldM group_step rs (G, U) = Inl TypeError"
proof (cases "foldM group_step rs (G, U)")
  case (Inl e)
  then show ?thesis by (simp add: exn_is_TypeError [of e])
next
  case (Inr acc)
  obtain G' U' where "acc = (G', U')" by (cases acc)
  with Inr have "list_all (\<lambda>t. t \<notin> set object_members) (tags_of rs)"
    and ok: "foldM group_step rs (G, U) = Inr (G', U')"
    using foldM_group_step [of rs G U G' U'] assms(2) by simp_all
  have "list_all groupable rs"
    using ok assms(2)
  proof (induction rs arbitrary: G U)
    case Nil
    show ?case by simp
  next
    case (Cons r rs)
    from Cons.prems(1) obtain acc where step: "group_step (G, U) r = Inr acc"
      and rest: "foldM group_step rs acc = Inr (G', U')"
      by (auto simp: and_then_eq_Inr)
    from step Cons.prems(2) show ?case
    proof (cases rule: group_step_Inr)
      case (1 t G1)
      have "map fst G1 = add_key (map fst G) t" using 1(3,2) by (rule keys_push_to_group)
      with Cons.prems(2) 1(2) have inv: "set (map fst G1) \<inter> set object_members = {}"
        by (auto simp: set_add_key)
      from Cons.IH [OF rest [unfolded 1(4)] inv] 1(1,2) show ?thesis
        by (simp add: groupable_def)
    next
      case 2
      from Cons.IH [OF rest [unfolded 2(2)] Cons.prems(2)] 2(1) show ?thesis
        by (simp add: groupable_def)
    qed
  qed
  with assms(1) show ?thesis by simp
qed

lemma set_foldl_add_key: "set (foldl add_key ks ts) = set ks \<union> set ts"
  by (induction ts arbitrary: ks) (auto simp: set_add_key)

lemma distinct_foldl_add_key: "distinct ks \<Longrightarrow> distinct (foldl add_key ks ts)"
  by (induction ts arbitrary: ks) (auto simp: distinct_add_key)

lemma foldl_add_key_no_index:
  "list_all (\<lambda>t. \<not> is_array_index t) ts \<Longrightarrow>
   foldl add_key ks ts = foldl (\<lambda>acc x. if x \<in> set acc then acc else acc @ [x]) ks ts"
  by (induction ts arbitrary: ks) (auto simp: add_key_def)

lemma set_tags_of: "set (tags_of rs) = {t. \<exists>r \<in> set rs. first_tag r = Inr (Some t)}"
  by (auto simp: tags_of_def split: sum.splits option.splits)

lemma groupRequestsByTags_Inr:
  assumes "groupRequestsByTags rs = Inr (groups, ungrouped)"
  obtains G where "foldM group_step rs ([], []) = Inr (G, ungrouped)"
    and "groups = map (\<lambda>(groupName, xs). \<lparr>grp_name = groupName, grp_requests = xs\<rparr>) G"
  using assms by (auto simp: groupRequestsByTags_def and_then_eq_Inr)

lemma groups_characterised:
  assumes "groupRequestsByTags rs = Inr (groups, ungrouped)"
  shows "ungrouped = filter (\<lambda>r. first_tag r = Inr None) rs"
    and "list_all (\<lambda>grp. grp_requests grp = filter (\<lambda>r. first_tag r = Inr (Some (grp_name grp))) rs
                      \<and> grp_requests grp \<noteq> []) groups"
    and "map grp_name groups = key_order (tags_of rs)"
    and "distinct (map grp_name groups)"
    and "set (map grp_name groups) = {t. \<exists>r \<in> set rs. first_tag r = Inr (Some t)}"
    and "list_all (\<lambda>t. t \<notin> set object_members) (tags_of rs)"
proof -
  from assms obtain G where fold: "foldM group_step rs ([], []) = Inr (G, ungrouped)"
    and groups: "groups = map (\<lambda>(groupName, xs). \<lparr>grp_name = groupName, grp_requests = xs\<rparr>) G"
    by (rule groupRequestsByTags_Inr)
  have "set (map fst ([] :: (string \<times> openapi_request list) list)) \<inter> set object_members = {}"
    by simp
  note inv = foldM_group_step [OF fold this]
  from inv show "ungrouped = filter (\<lambda>r. first_tag r = Inr None) rs" by simp
  from inv show "list_all (\<lambda>t. t \<notin> set object_members) (tags_of rs)" by simp
  have names: "map grp_name groups = map fst G"
    unfolding groups by (induction G) auto
  from inv names show order: "map grp_name groups = key_order (tags_of rs)"
    by (simp add: key_order_def)
  then show dist: "distinct (map grp_name groups)"
    by (simp add: key_order_def distinct_foldl_add_key)
  from order show "set (map grp_name groups) = {t. \<exists>r \<in> set rs. first_tag r = Inr (Some t)}"
    by (simp add: key_order_def set_foldl_add_key set_tags_of)
  have "grp_requests grp = filter (\<lambda>r. first_tag r = Inr (Some (grp_name grp))) rs
      \<and> grp_requests grp \<noteq> []" if "grp \<in> set groups" for grp
  proof -
    from that groups obtain t xs where tx: "(t, xs) \<in> set G"
      and grp: "grp = \<lparr>grp_name = t, grp_requests = xs\<rparr>"
      by auto
    from dist names have "distinct (map fst G)" by simp
    with tx have "map_of G t = Some xs" by simp
    with inv have "filter (\<lambda>r. first_tag r = Inr (Some t)) rs \<noteq> []
        \<and> xs = filter (\<lambda>r. first_tag r = Inr (Some t)) rs"
      by (auto split: if_splits)
    with grp show ?thesis by simp
  qed
  then show "list_all (\<lambda>grp. grp_requests grp = filter (\<lambda>r. first_tag r = Inr (Some (grp_name grp))) rs
                      \<and> grp_requests grp \<noteq> []) groups"
    unfolding list_all_iff by blast
qed

lemma grouping_succeeds:
  "(\<exists>groups ungrouped. groupRequestsByTags rs = Inr (groups, ungrouped)) \<longleftrightarrow> list_all groupable rs"
proof
  assume "\<exists>groups ungrouped. groupRequestsByTags rs = Inr (groups, ungrouped)"
  then obtain groups ungrouped where "groupRequestsByTags rs = Inr (groups, ungrouped)" by blast
  then obtain G where "foldM group_step rs ([], []) = Inr (G, ungrouped)"
    by (rule groupRequestsByTags_Inr)
  then show "list_all groupable rs"
    using foldM_group_step_fails [of rs "[]" "[]"] by force
next
  assume "list_all groupable rs"
  then obtain G U where "foldM group_step rs ([], []) = Inr (G, U)"
    using foldM_group_step_total [of rs "[]" "[]"] by auto
  then show "\<exists>groups ungrouped. groupRequestsByTags rs = Inr (groups, ungrouped)"
    by (simp add: groupRequestsByTags_def)
qed

lemma grouping_fails:
  "\<not> list_all groupable rs \<Longrightarrow> groupRequestsByTags rs = Inl TypeError"
  using foldM_group_step_fails [of rs "[]" "[]"] by (simp add: groupRequestsByTags_def)

lemma users_groups:
  assumes "first_tag a = Inr (Some ''Users'')" and "first_tag b = Inr (Some ''Users'')"
    and "first_tag u = Inr None"
  shows "groupRequestsByTags [a, b, u] = Inr ([\<lparr>grp_name = ''Users'', grp_requests = [a, b]\<rparr>], [u])"
    and "groupRequestsByTags [a, u, b] = Inr ([\<lparr>grp_name = ''Users'', grp_requests = [a, b]\<rparr>], [u])"
    and "groupRequestsByTags [u, a, b] = Inr ([\<lparr>grp_name = ''Users'', grp_requests = [a, b]\<rparr>], [u])"
  using assms
  by (simp_all add: groupRequestsByTags_def group_step_tagged group_step_untagged push_to_group_def
      object_members_def obj_set_def is_array_index_def is_digit_def)

lemma first_tag_array:
  assumes "get_prop (rq_operationObject r) ''tags'' = Inr (JArr (JStr t # others))"
  shows "first_tag r = Inr (Some t)"
  using assms
  by (simp add: first_tag_def js_or_def is_array_index_def is_digit_def read_nat_def digit_val_def)

lemma first_tag_none:
  assumes "get_prop (rq_operationObject r) ''tags'' = Inr tags"
    and "tags = JUndef \<or> tags = JNull \<or> tags = JArr []"
  shows "first_tag r = Inr None"
  using assms by (auto simp: first_tag_def js_or_def)

lemma first_tag_tagged: "first_tag (tagged_request path tag) = Inr (Some tag)"
  by (rule first_tag_array [of _ _ "[]"]) (simp add: tagged_request_def)

lemma first_tag_tags: "first_tag (tags_request path (t # others)) = Inr (Some t)"
  by (rule first_tag_array [of _ _ "map JStr others"]) (simp add: tags_request_def)

lemma first_tag_untagged: "first_tag (untagged_request path) = Inr None"
  by (rule first_tag_none [of _ JUndef]) (simp_all add: untagged_request_def)

subsection \<open>The walk along the path of a reference\<close>

lemmas resolve_eval =
  resolveRefs.simps ref_block_def startsWith_def split_def h_set_prop_def obj_set_def
  h_read_def h_get_prop_def

lemma h_read_own: "h_own h v k = Some x \<Longrightarrow> h_read h v k = Done x"
  by (cases v) (simp_all add: h_read_def)

lemma h_read_inherited:
  assumes "kind_of h v = Some kd" and "h_own h v k = None"
  shows "h_read h v k = Done (if k \<in> set (members_of kd) then HBuiltin kd k else HUndef)"
  using assms by (cases v) (simp_all add: h_read_def)

lemma h_own_kind: "h_own h v k = Some x \<Longrightarrow> \<exists>kd. kind_of h v = Some kd"
  by (cases v) (auto split: if_splits hobj.splits)

lemma walk_refs_append:
  "walk_refs h rf (ks1 @ ks2) =
     run_then (walk_refs h rf ks1) (\<lambda>r. case r of None \<Rightarrow> Done None | Some x \<Rightarrow> walk_refs h x ks2)"
proof (induction ks1 arbitrary: rf)
  case Nil
  show ?case by simp
next
  case (Cons k ks1)
  show ?case
  proof (cases "h_read h rf k")
    case (Done v)
    with Cons show ?thesis by simp
  qed simp_all
qed

lemma walk_own_path:
  assumes "own_path h v ks = Some vs" and "list_all h_truthy vs"
  shows "walk_refs h v ks = Done (Some (last (v # vs)))"
  using assms
proof (induction ks arbitrary: v vs)
  case Nil
  then show ?case by simp
next
  case (Cons k ks)
  from Cons.prems(1) obtain x xs where x: "h_own h v k = Some x" and xs: "own_path h x ks = Some xs"
    and vs: "vs = x # xs"
    by (auto split: option.splits)
  from Cons.prems(2) vs have t: "h_truthy x" "list_all h_truthy xs" by simp_all
  from Cons.IH [OF xs t(2)] x t(1) vs show ?case
    by (simp add: h_read_own)
qed

lemma walk_stops:
  assumes "own_path h v ks1 = Some vs" and "list_all h_truthy vs"
    and "h_read h (last (v # vs)) k = Done x"
  shows "walk_refs h v (ks1 @ k # ks2) = (if h_truthy x then walk_refs h x ks2 else Done None)"
  using walk_own_path [OF assms(1,2)] assms(3) by (simp add: walk_refs_append)

lemma ref_block_local:
  assumes "map_of kvs ''$ref'' = Some (HStr (''#/components/'' @ p))"
  shows "ref_block h kvs components =
     (case walk_refs h components (split CHR ''/'' p) of
        Raise e \<Rightarrow> Throw e | Done None \<Rightarrow> ReturnSpec | Done (Some rf) \<Rightarrow> Follow rf
      | _ \<Rightarrow> Leave)"
  using assms by (simp add: ref_block_def startsWith_def)

lemma resolveRefs_local_ref:
  assumes "local_ref h a p" and "components \<noteq> HUndef"
  shows "resolveRefs (Suc fuel) h (HRef a) components =
     (case walk_refs h components (split CHR ''/'' p) of
        Raise e \<Rightarrow> Raise e
      | Done None \<Rightarrow> Done (HRef a, h)
      | Done (Some rf) \<Rightarrow> resolveRefs fuel h rf components
      | _ \<Rightarrow> Beyond)"
proof -
  from assms(1) obtain kvs where a: "a < length h" "h ! a = HObj kvs"
    and r: "map_of kvs ''$ref'' = Some (HStr (''#/components/'' @ p))"
    by (auto simp: local_ref_def split: hobj.splits)
  show ?thesis
    using a assms(2)
    by (simp add: resolveRefs.simps ref_block_local [OF r] split: run.splits option.splits)
qed

lemma split_not_empty: "split c s \<noteq> []"
proof -
  have "split_acc c cur s \<noteq> []" for cur
    by (induction s arbitrary: cur) simp_all
  then show ?thesis by (simp add: split_def)
qed

lemma obj_set_same:
  assumes "map_of kvs k = Some v" and "distinct (map fst kvs)"
  shows "obj_set kvs k v = kvs"
proof -
  from assms(1) have mem: "k \<in> set (map fst kvs)"
    by (metis map_of_eq_None_iff option.distinct(1) set_map)
  have "map (\<lambda>(k', v'). if k' = k then (k', v) else (k', v')) kvs = kvs"
    using assms
  proof (induction kvs)
    case Nil
    then show ?case by simp
  next
    case (Cons kv kvs)
    obtain k' v' where kv: "kv = (k', v')" by (cases kv)
    show ?case
    proof (cases "k' = k")
      case True
      with Cons.prems kv have "v' = v" and "k \<notin> set (map fst kvs)" by auto
      then have "map (\<lambda>(k', v'). if k' = k then (k', v) else (k', v')) kvs = kvs"
        by (induction kvs) auto
      with True kv \<open>v' = v\<close> show ?thesis by simp
    next
      case False
      with Cons kv show ?thesis by simp
    qed
  qed
  with mem show ?thesis by (simp add: obj_set_def)
qed

lemma resolveRefs_primitive:
  assumes "primitive v" and "components \<noteq> HUndef"
  shows "resolveRefs (Suc fuel) h v components = Done (v, h)"
  using assms by (cases v) (simp_all add: resolveRefs.simps)

lemma resolveProps_flat:
  assumes "c < length h" and "h ! c = HObj kvs" and "distinct (map fst kvs)"
    and "list_all (\<lambda>(k, x). primitive x) kvs" and "components \<noteq> HUndef"
    and "set ps \<subseteq> set (map fst kvs)"
  shows "resolveProps (Suc fuel) h c ps components = Done h"
  using assms(6)
proof (induction ps)
  case Nil
  show ?case by simp
next
  case (Cons prp ps)
  from Cons.prems obtain v where v: "map_of kvs prp = Some v"
    by (metis list.set_intros(1) map_of_eq_None_iff not_Some_eq set_map subsetD)
  then have "(prp, v) \<in> set kvs" by (rule map_of_SomeD)
  with assms(4) have pv: "primitive v" by (auto simp: list_all_iff)
  have get: "h_get_prop h (HRef c) prp = Inr v"
    using assms(1,2) v by (simp add: h_get_prop_def)
  have set: "h_set_prop h c prp v = h"
    using assms(1,2) obj_set_same [OF v assms(3)]
    by (simp add: h_set_prop_def list_update_same_conv)
  from Cons get set resolveRefs_primitive [OF pv assms(5)] show ?case by simp
qed

lemma resolveRefs_flat:
  assumes "flat h v" and "components \<noteq> HUndef"
  shows "resolveRefs (Suc (Suc fuel)) h v components = Done (v, h)"
proof (cases "primitive v")
  case True
  then show ?thesis using assms(2) by (rule resolveRefs_primitive)
next
  case False
  with assms(1) obtain c kvs where v: "v = HRef c" and c: "c < length h" "h ! c = HObj kvs"
    and k: "''$ref'' \<notin> set (map fst kvs)" "distinct (map fst kvs)"
      "list_all (\<lambda>(k, x). primitive x) kvs"
    by (cases v) (auto simp: flat_def split: hobj.splits)
  from k(1) have "map_of kvs ''$ref'' = None" by (simp add: map_of_eq_None_iff)
  then have rb: "ref_block h kvs components = FallThrough" by (simp add: ref_block_def)
  have "resolveProps (Suc fuel) h c (map fst kvs) components = Done h"
    using c k(2,3) assms(2) by (rule resolveProps_flat) simp
  with v c rb assms(2) show ?thesis by (simp add: resolveRefs.simps)
qed

lemma resolveRefs_default:
  assumes "h_get_prop h spec ''components'' = Inr c"
  shows "resolveRefs fuel h spec HUndef = resolveRefs fuel h spec c"
proof (cases "c = HUndef")
  case True
  then show ?thesis by simp
next
  case False
  show ?thesis
  proof (cases fuel)
    case 0
    then show ?thesis by (simp add: resolveRefs.simps)
  next
    case (Suc n)
    with assms False show ?thesis by (simp add: resolveRefs.simps)
  qed
qed

lemma resolveRefs_self:
  assumes "local_ref h a p" and "components \<noteq> HUndef"
    and "walk_refs h components (split CHR ''/'' p) = Done (Some (HRef a))"
  shows "resolveRefs fuel h (HRef a) components = OutOfFuel"
proof (induction fuel)
  case 0
  show ?case by (simp add: resolveRefs.simps)
next
  case (Suc fuel)
  with resolveRefs_local_ref [OF assms(1,2), of fuel] assms(3) show ?case by simp
qed

lemma resolveRefs_builtin:
  "resolveRefs (Suc fuel) h (HBuiltin kd m) components =
     (if kd = KArray \<and> m = ''__proto__'' then Done (HRef (length h), h @ [HArr []])
      else Done (HBuiltin kd m, h))"
  by (simp add: resolveRefs.simps h_get_prop_def)

lemma resolveRefs_no_components:
  assumes "local_ref h a p"
    and "comps = HNull \<or> (comps = HUndef \<and> (h_own h (HRef a) ''components'' = None
           \<or> h_own h (HRef a) ''components'' = Some HUndef
           \<or> h_own h (HRef a) ''components'' = Some HNull))"
  shows "resolveRefs (Suc fuel) h (HRef a) comps = Raise TypeError"
proof -
  from assms(1) obtain kvs where a: "a < length h" "h ! a = HObj kvs"
    and r: "map_of kvs ''$ref'' = Some (HStr (''#/components/'' @ p))"
    by (auto simp: local_ref_def split: hobj.splits)
  obtain k ks where ks: "split CHR ''/'' p = k # ks"
    using split_not_empty [of "CHR ''/''" p] by (cases "split CHR ''/'' p") auto
  have w: "walk_refs h c (split CHR ''/'' p) = Raise TypeError" if "c = HUndef \<or> c = HNull" for c
    using that ks by (auto simp: h_read_def)
  from assms(2) consider "comps = HNull"
    | "comps = HUndef" "h_get_prop h (HRef a) ''components'' = Inr HUndef"
    | "comps = HUndef" "h_get_prop h (HRef a) ''components'' = Inr HNull"
    by (auto simp: h_get_prop_def)
  then show ?thesis
  proof cases
    case 1
    with a w [of HNull] show ?thesis
      by (simp add: resolveRefs.simps ref_block_local [OF r])
  next
    case 2
    with a w [of HUndef] show ?thesis
      by (simp add: resolveRefs.simps ref_block_local [OF r])
  next
    case 3
    with a w [of HNull] show ?thesis
      by (simp add: resolveRefs.simps ref_block_local [OF r])
  qed
qed

subsection \<open>Every uid of the tree is the result of a call of its own\<close>

lemma fresh_nil: "n \<le> n' \<Longrightarrow> fresh g n n' []"
  by (simp add: fresh_def)

lemma fresh_single: "fresh g n (Suc n) [JStr (g n)]"
  unfolding fresh_def by (intro conjI exI [of _ "[n]"]) simp_all

lemma fresh_append:
  assumes "fresh g n m us" and "fresh g m k vs"
  shows "fresh g n k (us @ vs)" and "fresh g n k (vs @ us)"
proof -
  from assms obtain cs ds where us: "us = map (\<lambda>i. JStr (g i)) cs" and dcs: "distinct cs"
    and scs: "set cs \<subseteq> {n..<m}" and vs: "vs = map (\<lambda>i. JStr (g i)) ds" and dds: "distinct ds"
    and sds: "set ds \<subseteq> {m..<k}" and le: "n \<le> m" "m \<le> k"
    unfolding fresh_def by blast
  have disj: "set cs \<inter> set ds = {}" using scs sds by fastforce
  have sub: "set (cs @ ds) \<subseteq> {n..<k}" "set (ds @ cs) \<subseteq> {n..<k}"
    using scs sds le by fastforce+
  show "fresh g n k (us @ vs)"
    unfolding fresh_def using us vs dcs dds disj sub(1) le
    by (intro conjI exI [of _ "cs @ ds"]) auto
  show "fresh g n k (vs @ us)"
    unfolding fresh_def using us vs dcs dds disj sub(2) le
    by (intro conjI exI [of _ "ds @ cs"]) auto
qed

lemma fresh_distinct: "inj g \<Longrightarrow> fresh g n n' us \<Longrightarrow> distinct us"
  unfolding fresh_def by (auto simp: distinct_map inj_on_def dest: injD)

lemma fresh_calls:
  assumes "fresh g n n' us"
  shows "set us \<subseteq> (\<lambda>i. JStr (g i)) ` {n..<n'}"
proof -
  from assms obtain calls where "us = map (\<lambda>i. JStr (g i)) calls" and "set calls \<subseteq> {n..<n'}"
    unfolding fresh_def by blast
  then show ?thesis by (simp add: image_mono)
qed

lemma mapM_fresh:
  assumes "\<And>x k y k'. x \<in> set xs \<Longrightarrow> f x k = Inr (y, k') \<Longrightarrow> fresh g k k' (U y)"
    and "mapM f xs n = Inr (ys, n')"
  shows "fresh g n n' (concat (map U ys))"
  using assms
proof (induction xs arbitrary: n ys)
  case Nil
  then show ?case by (simp add: fresh_nil)
next
  case (Cons x xs)
  from Cons.prems(2) obtain y k zs where fx: "f x n = Inr (y, k)"
    and rest: "mapM f xs k = Inr (zs, n')" and ys: "ys = y # zs"
    by (auto split: sum.splits prod.splits)
  have "fresh g n k (U y)" using Cons.prems(1) [of x n y k] fx by simp
  moreover have "fresh g k n' (concat (map U zs))"
  proof (rule Cons.IH [OF _ rest])
    fix x' k1 y' k2
    assume "x' \<in> set xs" and "f x' k1 = Inr (y', k2)"
    then show "fresh g k1 k2 (U y')" using Cons.prems(1) [of x' k1 y' k2] by simp
  qed
  ultimately show ?case using ys by (simp add: fresh_append(1))
qed

lemma uids_fields_concat: "uids_fields (JArr fs) = concat (map (\<lambda>f. [field f ''uid'']) fs)"
  by (induction fs) (simp_all add: uids_fields_def)

lemma extractUriParameters_fresh:
  "extractUriParameters g path n = Inr (req, n') \<Longrightarrow> fresh g n n' (uids_fields (JArr req))"
  unfolding extractUriParameters_def uids_fields_concat
  by (erule mapM_fresh [rotated]) (auto simp: uuid_def field_def fresh_single)

lemma queryParameter_fields_fresh:
  "queryParameter_fields g kvs n = Inr (fs, n') \<Longrightarrow> fresh g n n' (uids_fields (JArr fs))"
  unfolding queryParameter_fields_def uids_fields_concat
  by (erule mapM_fresh [rotated]) (auto simp: uuid_def field_def fresh_single and_then_eq_Inr)

lemma header_fields_fresh:
  "header_fields g kvs n = Inr (fs, n') \<Longrightarrow> fresh g n n' (uids_fields (JArr fs))"
  unfolding header_fields_def uids_fields_concat
  by (erule mapM_fresh [rotated]) (auto simp: uuid_def field_def fresh_single and_then_eq_Inr)

lemma uids_request_item:
  "uids_item (JObj [(''uid'', u), (''name'', nm), (''type'', JStr ''http-request''),
                    (''request'', JObj [(''url'', url), (''method'', m), (''auth'', a),
                       (''headers'', JArr hdrs), (''params'', JArr params),
                       (''vars'', JObj [(''req'', JArr req)]), (''body'', JObj body),
                       (''docs'', d)])]) =
     u # (uids_fields (JArr hdrs) @ uids_fields (JArr params) @ uids_fields (JArr req)
          @ uids_fields (field (JObj body) ''formUrlEncoded'')
          @ uids_fields (field (JObj body) ''multipartForm''))"
  by (simp add: uids_item.simps uids_request_def field_def)

lemma uids_fields_body_none:
  "uids_fields (field (JObj body_none) ''formUrlEncoded'') = []"
  "uids_fields (field (JObj body_none) ''multipartForm'') = []"
  by (simp_all add: body_none_def field_def uids_fields_def)

lemma createBrunoRequest_fresh:
  assumes "createBrunoRequest g method baseUri path properties n = Inr (item, n')"
  shows "fresh g n n' (uids_item item)"
proof -
  from assms obtain req n2 qs params n3 hs hdrs where
    r: "extractUriParameters g path (Suc n) = Inr (req, n2)"
    and p: "queryParameter_fields g qs n2 = Inr (params, n3)"
    and h: "header_fields g hs n3 = Inr (hdrs, n')"
    and item: "uids_item item =
        JStr (g n) # (uids_fields (JArr hdrs) @ uids_fields (JArr params) @ uids_fields (JArr req))"
    by (auto simp: createBrunoRequest_def and_then_eq_Inr uuid_def uids_request_item
        uids_fields_body_none)
  have "fresh g (Suc n) n3 (uids_fields (JArr params) @ uids_fields (JArr req))"
    using extractUriParameters_fresh [OF r] queryParameter_fields_fresh [OF p]
    by (rule fresh_append(2))
  then have "fresh g (Suc n) n'
      (uids_fields (JArr hdrs) @ uids_fields (JArr params) @ uids_fields (JArr req))"
    using header_fields_fresh [OF h] by (rule fresh_append(2))
  with fresh_single [of g n] have "fresh g n n' ([JStr (g n)] @ (uids_fields (JArr hdrs)
       @ uids_fields (JArr params) @ uids_fields (JArr req)))"
    by (rule fresh_append(1))
  with item show ?thesis by simp
qed

lemma foldl_js_concat: "foldl js_concat acc vs = acc @ concat (map spread vs)"
  by (induction vs arbitrary: acc) (auto simp: js_concat_def spread_def split: jsval.splits)

lemma createBrunoRequest_is_object:
  "createBrunoRequest g method baseUri path properties n = Inr (item, n') \<Longrightarrow> spread item = [item]"
  by (auto simp: createBrunoRequest_def and_then_eq_Inr uuid_def spread_def)

lemma uids_folder:
  "uids_item (JObj [(''uid'', u), (''name'', nm), (''type'', JStr ''folder''), (''items'', JArr es)])
     = u # concat (map uids_item es)"
  by (simp add: uids_item.simps [of "JObj kvs" for kvs] field_def)

lemma folder_set_items:
  "set_prop (JObj [(''uid'', u), (''name'', nm), (''type'', JStr ''folder''), (''items'', JArr [])])
     ''items'' (JArr es)
   = JObj [(''uid'', u), (''name'', nm), (''type'', JStr ''folder''), (''items'', JArr es)]"
  by (simp add: set_prop_def obj_set_def)

lemma transformRamlNode_fresh:
  "transformRamlNode g ents baseUri basePath cf n = Inr (r, n') \<Longrightarrow>
   \<exists>es. fresh g n n' (concat (map uids_item es))
      \<and> r = (if truthy cf then set_prop cf ''items'' (JArr es) else JArr es)"
proof (induction g ents baseUri basePath cf n arbitrary: r n' rule: transformRamlNode.induct)
  case (1 g ents baseUri basePath currentFolder n)
  let ?f = "\<lambda>(key, val) k.
               if toLowerCase key \<in> set methods
               then createBrunoRequest g key baseUri basePath (js_or val (JObj [])) k
               else if startsWith key ''/''
               then (let (folder, k1) = createBrunoFolder g key k in
                     transformRamlNode g val baseUri (basePath @ ensureUriParameter key) folder k1)
               else Inr (JArr [], k)"
  from "1.prems" obtain kvs results where ents: "entries ents = Inr kvs"
    and loop: "mapM ?f kvs n = Inr (results, n')"
    and r: "r = (if truthy currentFolder
                 then set_prop currentFolder ''items'' (JArr (foldl js_concat [] results))
                 else JArr (foldl js_concat [] results))"
    by (auto simp: transformRamlNode.simps [of g ents] and_then_eq_Inr Let_def split: if_splits)
  have step: "fresh g k k' (concat (map uids_item (spread y)))"
    if mem: "x \<in> set kvs" and fx: "?f x k = Inr (y, k')" for x k y k'
  proof -
    obtain key val where x: "x = (key, val)" by (cases x)
    consider (verb) "toLowerCase key \<in> set methods"
      | (resource) "toLowerCase key \<notin> set methods" "startsWith key ''/''"
      | (other) "toLowerCase key \<notin> set methods" "\<not> startsWith key ''/''"
      by blast
    then show ?thesis
    proof cases
      case verb
      with fx x have c: "createBrunoRequest g key baseUri basePath (js_or val (JObj [])) k = Inr (y, k')"
        by simp
      from createBrunoRequest_fresh [OF c] createBrunoRequest_is_object [OF c]
      show ?thesis by simp
    next
      case resource
      let ?folder = "JObj [(''uid'', JStr (g k)), (''name'', JStr (replaceAll CHR ''/'' '' '' key)),
                           (''type'', JStr ''folder''), (''items'', JArr [])]"
      have cf: "createBrunoFolder g key k = (?folder, Suc k)"
        by (simp add: createBrunoFolder_def uuid_def)
      with fx x resource have rec:
        "transformRamlNode g val baseUri (basePath @ ensureUriParameter key) ?folder (Suc k) = Inr (y, k')"
        by simp
      from "1.IH" [OF ents mem x [symmetric] resource refl cf [symmetric] rec]
      obtain es where fr: "fresh g (Suc k) k' (concat (map uids_item es))"
        and y: "y = set_prop ?folder ''items'' (JArr es)"
        by auto
      from y have y': "y = JObj [(''uid'', JStr (g k)), (''name'', JStr (replaceAll CHR ''/'' '' '' key)),
                           (''type'', JStr ''folder''), (''items'', JArr es)]"
        by (simp add: folder_set_items)
      have "fresh g k k' ([JStr (g k)] @ concat (map uids_item es))"
        by (rule fresh_append(1) [OF fresh_single fr])
      with y' show ?thesis
        by (simp add: spread_def uids_folder)
    next
      case other
      with fx x show ?thesis
        by (auto simp: spread_def fresh_nil)
    qed
  qed
  have "fresh g n n' (concat (map (\<lambda>y. concat (map uids_item (spread y))) results))"
    using step loop by (rule mapM_fresh)
  moreover have "concat (map uids_item (foldl js_concat [] results))
      = concat (map (\<lambda>y. concat (map uids_item (spread y))) results)"
    unfolding foldl_js_concat by (induction results) simp_all
  ultimately have "fresh g n n' (concat (map uids_item (foldl js_concat [] results)))"
    by simp
  with r show ?case
    by (intro exI [of _ "foldl js_concat [] results"]) simp
qed

lemma uids_collection_literal:
  "uids_collection (JObj [(''name'', nm), (''uid'', u), (''version'', v), (''items'', JArr es),
                          (''environments'', en)]) = u # concat (map uids_item es)"
  by (simp add: uids_collection_def field_def)

lemma parseRamlCollection_fresh:
  assumes "parseRamlCollection g data n = Inr (c, n')"
  shows "fresh g n n' (uids_collection c)"
proof -
  from assms obtain b title items where
    walk: "transformRamlNode g data (js_or b (JStr ''{{baseUri}}'')) [] JUndef (Suc n) = Inr (items, n')"
    and c: "c = JObj [(''name'', js_or title (JStr [])), (''uid'', JStr (g n)), (''version'', JStr ''1''),
                      (''items'', items), (''environments'', JArr [])]"
    by (auto simp: parseRamlCollection_def and_then_eq_Inr uuid_def Let_def split: sum.splits)
  from transformRamlNode_fresh [OF walk] obtain es
    where fr: "fresh g (Suc n) n' (concat (map uids_item es))" and items: "items = JArr es"
    by auto
  have "fresh g n n' ([JStr (g n)] @ concat (map uids_item es))"
    by (rule fresh_append(1) [OF fresh_single fr])
  with c items show ?thesis by (simp add: uids_collection_literal)
qed

lemma inj_tally: "inj tally"
proof (rule injI)
  fix m n assume "tally m = tally n"
  then have "length (tally m) = length (tally n)" by simp
  then show "m = n" by (simp add: tally_def)
qed

lemma body_fields_fresh:
  "body_fields g kvs n = Inr (fs, n') \<Longrightarrow> fresh g n n' (uids_fields (JArr fs))"
  unfolding body_fields_def uids_fields_concat
  by (erule mapM_fresh [rotated]) (auto simp: uuid_def field_def fresh_single and_then_eq_Inr)

lemma uids_forms_none: "uids_forms body_none = []"
  by (simp add: uids_forms_def uids_fields_body_none)

lemma field_obj_set_other: "k \<noteq> m \<Longrightarrow> field (JObj (obj_set kvs m x)) k = field (JObj kvs) k"
  by (simp add: field_def map_of_obj_set_other)

lemma field_obj_set_same: "m \<noteq> ''__proto__'' \<Longrightarrow> field (JObj (obj_set kvs m x)) m = x"
  by (simp add: field_def map_of_obj_set_same)

lemma raml_fill_body_fresh:
  assumes "raml_fill_body g properties body bodyMode n = Inr (b, n')"
    and "bodyMode = JUndef \<or> (\<exists>m. bodyMode = JStr m)"
  shows "fresh g n n' (uids_forms b)"
proof -
  let ?body1 = "obj_set body_none ''mode'' bodyMode"
  have start: "field (JObj ?body1) ''formUrlEncoded'' = JArr []"
    "field (JObj ?body1) ''multipartForm'' = JArr []"
    by (simp_all add: field_obj_set_other) (simp_all add: field_def body_none_def)
  consider (multi) "bodyMode = JStr ''multipartForm''"
    | (urlenc) "bodyMode = JStr ''formUrlEncoded''"
    | (other) "bodyMode \<noteq> JStr ''multipartForm''" "bodyMode \<noteq> JStr ''formUrlEncoded''"
    by blast
  then show ?thesis
  proof cases
    case multi
    with assms(1) obtain fs flds where f: "body_fields g fs n = Inr (flds, n')"
      and b: "b = obj_set ?body1 ''multipartForm'' (JArr flds)"
      by (auto simp: raml_fill_body_def Let_def and_then_eq_Inr)
    from b start have "uids_forms b = uids_fields (JArr flds)"
      by (simp add: uids_forms_def field_obj_set_other field_obj_set_same uids_fields_def)
    with body_fields_fresh [OF f] show ?thesis by simp
  next
    case urlenc
    with assms(1) obtain fs flds where f: "body_fields g fs n = Inr (flds, n')"
      and b: "b = obj_set ?body1 ''formUrlEncoded'' (JArr flds)"
      by (auto simp: raml_fill_body_def Let_def and_then_eq_Inr)
    from b start have "uids_forms b = uids_fields (JArr flds)"
      by (simp add: uids_forms_def field_obj_set_other field_obj_set_same uids_fields_def)
    with body_fields_fresh [OF f] show ?thesis by simp
  next
    case other
    with assms(1) obtain example where b: "b = obj_set ?body1 (toString bodyMode) example"
      and n': "n' = n"
      by (auto simp: raml_fill_body_def Let_def and_then_eq_Inr)
    from other assms(2) have "toString bodyMode \<noteq> ''formUrlEncoded''"
      "toString bodyMode \<noteq> ''multipartForm''"
      by auto
    with b start have "uids_forms b = []"
      by (simp add: uids_forms_def field_obj_set_other uids_fields_def)
    with n' show ?thesis by (simp add: fresh_nil)
  qed
qed

lemma raml_body_fresh:
  assumes "raml_body g properties mt n = Inr (body, n')"
  shows "fresh g n n' (uids_forms body)"
proof -
  have fill: "fresh g k k' (uids_forms bo)"
    if "raml_fill_body g p b (case map_of bodyModeMapping s of Some m \<Rightarrow> JStr m | None \<Rightarrow> JUndef) k
          = Inr (bo, k')" for p b s k bo k'
    using that by (rule raml_fill_body_fresh) (simp split: option.splits)
  show ?thesis
    using assms
    by (auto simp: raml_body_def and_then_eq_Inr uids_forms_none fresh_nil split: if_splits
        dest: fill)
qed

lemma createBrunoRequest_v1_fresh:
  assumes "createBrunoRequest_v1 g method baseUri path properties mt n = Inr (item, n')"
  shows "fresh g n n' (uids_item item)"
proof -
  from assms obtain req n2 qs params n3 hs hdrs n4 body where
    r: "extractUriParameters g path (Suc n) = Inr (req, n2)"
    and p: "queryParameter_fields g qs n2 = Inr (params, n3)"
    and h: "header_fields g hs n3 = Inr (hdrs, n4)"
    and b: "raml_body g properties mt n4 = Inr (body, n')"
    and item: "uids_item item =
        JStr (g n) # ((uids_fields (JArr hdrs) @ uids_fields (JArr params) @ uids_fields (JArr req))
                      @ uids_forms body)"
    by (auto simp: createBrunoRequest_v1_def and_then_eq_Inr uuid_def uids_request_item
        uids_forms_def)
  have "fresh g (Suc n) n3 (uids_fields (JArr params) @ uids_fields (JArr req))"
    using extractUriParameters_fresh [OF r] queryParameter_fields_fresh [OF p]
    by (rule fresh_append(2))
  then have "fresh g (Suc n) n4
      (uids_fields (JArr hdrs) @ uids_fields (JArr params) @ uids_fields (JArr req))"
    using header_fields_fresh [OF h] by (rule fresh_append(2))
  then have "fresh g (Suc n) n'
      ((uids_fields (JArr hdrs) @ uids_fields (JArr params) @ uids_fields (JArr req))
       @ uids_forms body)"
    using raml_body_fresh [OF b] by (rule fresh_append(1))
  with fresh_single [of g n] have "fresh g n n' ([JStr (g n)]
      @ ((uids_fields (JArr hdrs) @ uids_fields (JArr params) @ uids_fields (JArr req))
         @ uids_forms body))"
    by (rule fresh_append(1))
  with item show ?thesis by simp
qed

lemma createBrunoRequest_v1_is_object:
  "createBrunoRequest_v1 g method baseUri path properties mt n = Inr (item, n') \<Longrightarrow>
   spread item = [item]"
  by (auto simp: createBrunoRequest_v1_def and_then_eq_Inr uuid_def spread_def)

lemma transformRamlNode_v1_fresh:
  "transformRamlNode_v1 g ents baseUri basePath mt cf n = Inr (r, n') \<Longrightarrow>
   \<exists>es. fresh g n n' (concat (map uids_item es))
      \<and> r = (if truthy cf then set_prop cf ''items'' (JArr es) else JArr es)"
proof (induction g ents baseUri basePath mt cf n arbitrary: r n' rule: transformRamlNode_v1.induct)
  case (1 g ents baseUri basePath defaultMediaType currentFolder n)
  let ?f = "\<lambda>(key, val) k.
               if toLowerCase key \<in> set methods
               then createBrunoRequest_v1 g key baseUri basePath (js_or val (JObj [])) defaultMediaType k
               else if startsWith key ''/''
               then (let (folder, k1) = createBrunoFolder g key k in
                     transformRamlNode_v1 g val baseUri (basePath @ ensureUriParameter key)
                       defaultMediaType folder k1)
               else Inr (JArr [], k)"
  from "1.prems" obtain kvs results where ents: "entries ents = Inr kvs"
    and loop: "mapM ?f kvs n = Inr (results, n')"
    and r: "r = (if truthy currentFolder
                 then set_prop currentFolder ''items'' (JArr (foldl js_concat [] results))
                 else JArr (foldl js_concat [] results))"
    by (auto simp: transformRamlNode_v1.simps [of g ents] and_then_eq_Inr Let_def split: if_splits)
  have step: "fresh g k k' (concat (map uids_item (spread y)))"
    if mem: "x \<in> set kvs" and fx: "?f x k = Inr (y, k')" for x k y k'
  proof -
    obtain key val where x: "x = (key, val)" by (cases x)
    consider (verb) "toLowerCase key \<in> set methods"
      | (resource) "toLowerCase key \<notin> set methods" "startsWith key ''/''"
      | (other) "toLowerCase key \<notin> set methods" "\<not> startsWith key ''/''"
      by blast
    then show ?thesis
    proof cases
      case verb
      with fx x have c: "createBrunoRequest_v1 g key baseUri basePath (js_or val (JObj []))
          defaultMediaType k = Inr (y, k')"
        by simp
      from createBrunoRequest_v1_fresh [OF c] createBrunoRequest_v1_is_object [OF c]
      show ?thesis by simp
    next
      case resource
      let ?folder = "JObj [(''uid'', JStr (g k)), (''name'', JStr (replaceAll CHR ''/'' '' '' key)),
                           (''type'', JStr ''folder''), (''items'', JArr [])]"
      have cf: "createBrunoFolder g key k = (?folder, Suc k)"
        by (simp add: createBrunoFolder_def uuid_def)
      with fx x resource have rec:
        "transformRamlNode_v1 g val baseUri (basePath @ ensureUriParameter key) defaultMediaType
           ?folder (Suc k) = Inr (y, k')"
        by simp
      from "1.IH" [OF ents mem x [symmetric] resource refl cf [symmetric] rec]
      obtain es where fr: "fresh g (Suc k) k' (concat (map uids_item es))"
        and y: "y = set_prop ?folder ''items'' (JArr es)"
        by auto
      from y have y': "y = JObj [(''uid'', JStr (g k)), (''name'', JStr (replaceAll CHR ''/'' '' '' key)),
                           (''type'', JStr ''folder''), (''items'', JArr es)]"
        by (simp add: folder_set_items)
      have "fresh g k k' ([JStr (g k)] @ concat (map uids_item es))"
        by (rule fresh_append(1) [OF fresh_single fr])
      with y' show ?thesis
        by (simp add: spread_def uids_folder)
    next
      case other
      with fx x show ?thesis
        by (auto simp: spread_def fresh_nil)
    qed
  qed
  have "fresh g n n' (concat (map (\<lambda>y. concat (map uids_item (spread y))) results))"
    using step loop by (rule mapM_fresh)
  moreover have "concat (map uids_item (foldl js_concat [] results))
      = concat (map (\<lambda>y. concat (map uids_item (spread y))) results)"
    unfolding foldl_js_concat by (induction results) simp_all
  ultimately have "fresh g n n' (concat (map uids_item (foldl js_concat [] results)))"
    by simp
  with r show ?case
    by (intro exI [of _ "foldl js_concat [] results"]) simp
qed

lemma parseRamlCollection_v1_fresh:
  assumes "parseRamlCollection_v1 g data n = Inr (c, n')"
  shows "fresh g n n' (uids_collection c)"
proof -
  from assms obtain b mt title items where
    walk: "transformRamlNode_v1 g data (js_or b (JStr ''{{baseUri}}'')) [] mt JUndef (Suc n)
             = Inr (items, n')"
    and c: "c = JObj [(''name'', js_or title (JStr [])), (''uid'', JStr (g n)), (''version'', JStr ''1''),
                      (''items'', items), (''environments'', JArr [])]"
    by (auto simp: parseRamlCollection_v1_def and_then_eq_Inr uuid_def Let_def split: sum.splits)
  from transformRamlNode_v1_fresh [OF walk] obtain es
    where fr: "fresh g (Suc n) n' (concat (map uids_item es))" and items: "items = JArr es"
    by auto
  have "fresh g n n' ([JStr (g n)] @ concat (map uids_item es))"
    by (rule fresh_append(1) [OF fresh_single fr])
  with c items show ?thesis by (simp add: uids_collection_literal)
qed

subsection \<open>What the field named by the mode holds\<close>

lemma field_body_set:
  assumes "m \<noteq> ''mode''" and "m \<noteq> ''__proto__''"
  shows "mode_of (JObj (obj_set (obj_set body_none ''mode'' (JStr m)) m x)) = JStr m"
    and "payload_of (JObj (obj_set (obj_set body_none ''mode'' (JStr m)) m x)) = x"
  using assms
  by (simp_all add: mode_of_def payload_of_def field_obj_set_other field_obj_set_same)

lemma field_body_mode:
  assumes "m \<in> set payload_fields"
  shows "mode_of (JObj (obj_set body_none ''mode'' (JStr m))) = JStr m"
    and "payload_of (JObj (obj_set body_none ''mode'' (JStr m))) = field (JObj body_none) m"
proof -
  from assms have "m \<noteq> ''mode''" by (auto simp: payload_fields_def)
  then show "mode_of (JObj (obj_set body_none ''mode'' (JStr m))) = JStr m"
    and "payload_of (JObj (obj_set body_none ''mode'' (JStr m))) = field (JObj body_none) m"
    by (simp_all add: mode_of_def payload_of_def field_obj_set_other field_obj_set_same)
qed

lemma mapM_map:
  assumes "\<And>x k y k'. f x k = Inr (y, k') \<Longrightarrow> e y = d x"
    and "mapM f xs n = Inr (ys, n')"
  shows "map e ys = map d xs"
  using assms(2)
proof (induction xs arbitrary: n ys)
  case Nil
  then show ?case by simp
next
  case (Cons x xs)
  from Cons.prems obtain y k zs where fx: "f x n = Inr (y, k)" and rest: "mapM f xs k = Inr (zs, n')"
    and ys: "ys = y # zs"
    by (auto split: sum.splits prod.splits)
  from assms(1) [OF fx] Cons.IH [OF rest] ys show ?case by simp
qed

lemma body_fields_names:
  "body_fields g kvs n = Inr (fs, n') \<Longrightarrow> map (\<lambda>f. field f ''name'') fs = map (\<lambda>(k, p). JStr k) kvs"
  unfolding body_fields_def
  by (erule mapM_map [rotated]) (auto simp: uuid_def and_then_eq_Inr field_def)

lemma schema_fields_names:
  "schema_fields g kvs n = Inr (fs, n') \<Longrightarrow> map (\<lambda>f. field f ''name'') fs = map fst kvs"
  unfolding schema_fields_def
  by (erule mapM_map [rotated]) (auto simp: uuid_def and_then_eq_Inr field_def)

lemma v1_item_body:
  assumes "createBrunoRequest_v1 g method baseUri path properties mt n = Inr (item, n')"
  obtains k body where "raml_body g properties mt k = Inr (body, n')" and "body_of item = JObj body"
  using assms
  by (auto simp: createBrunoRequest_v1_def and_then_eq_Inr uuid_def body_of_def field_def)

lemma openapi_item_body:
  assumes "transformOpenapiRequestItem g request n = Inr (item, n')"
  obtains k body where "openapi_body g (rq_operationObject request) k = Inr (body, n')"
    and "body_of item = JObj body"
  using assms
  by (auto simp: transformOpenapiRequestItem_def and_then_eq_Inr uuid_def body_of_def field_def Let_def)

lemma raml_body_absent:
  assumes "raml_body g properties dmt k = Inr (body, n')"
    and "get_prop properties ''body'' = Inr b"
    and "\<not> truthy b \<or> (\<exists>mt. raml_mediaType b dmt = Inr mt \<and> \<not> truthy mt)"
  shows "body = body_none"
  using assms by (auto simp: raml_body_def and_then_eq_Inr split: if_splits)

lemma raml_body_example:
  assumes "raml_body g properties dmt k = Inr (body, n')"
    and "get_prop properties ''body'' = Inr b" and "truthy b"
    and "raml_mediaType b dmt = Inr mt" and "truthy mt"
    and "map_of bodyModeMapping (toString mt) = Some m"
    and "m \<noteq> ''multipartForm''" and "m \<noteq> ''formUrlEncoded''"
    and "get_prop b ''example'' = Inr dflt"
  shows "mode_of (JObj body) = JStr m"
    and "payload_of (JObj body) =
           js_or (lodash_get properties [''body'', ''mediaType'', ''example''] dflt) (JStr [])"
proof -
  from assms(6) have "m \<noteq> ''mode''" "m \<noteq> ''__proto__''"
    by (auto simp: bodyModeMapping_def split: if_splits)
  moreover from assms have "body = obj_set (obj_set body_none ''mode'' (JStr m)) m
      (js_or (lodash_get properties [''body'', ''mediaType'', ''example''] dflt) (JStr []))"
    by (auto simp: raml_body_def raml_fill_body_def and_then_eq_Inr Let_def)
  ultimately show "mode_of (JObj body) = JStr m"
    and "payload_of (JObj body) =
           js_or (lodash_get properties [''body'', ''mediaType'', ''example''] dflt) (JStr [])"
    by (simp_all add: field_body_set)
qed

lemma raml_body_form:
  assumes "raml_body g properties dmt k = Inr (body, n')"
    and "get_prop properties ''body'' = Inr b" and "truthy b"
    and "raml_mediaType b dmt = Inr mt" and "truthy mt"
    and "map_of bodyModeMapping (toString mt) = Some m"
    and "m = ''multipartForm'' \<or> m = ''formUrlEncoded''"
    and "get_prop b ''properties'' = Inr dflt"
    and "entries (js_or (lodash_get properties [''body'', ''mediaType'', ''properties''] dflt)
           (JObj [])) = Inr fs"
  shows "mode_of (JObj body) = JStr m"
    and "names_of (payload_of (JObj body)) = map (\<lambda>(name, p). JStr name) fs"
proof -
  from assms(7) have m: "m \<noteq> ''mode''" "m \<noteq> ''__proto__''" by auto
  from assms obtain flds where f: "body_fields g fs k = Inr (flds, n')"
    and b: "body = obj_set (obj_set body_none ''mode'' (JStr m)) m (JArr flds)"
    by (auto simp: raml_body_def raml_fill_body_def and_then_eq_Inr Let_def)
  from b m show "mode_of (JObj body) = JStr m"
    by (simp add: field_body_set)
  from b m body_fields_names [OF f]
  show "names_of (payload_of (JObj body)) = map (\<lambda>(name, p). JStr name) fs"
    by (simp add: field_body_set names_of_def)
qed

lemma openapi_body_declared:
  "openapi_body g operationObject k =
     and_then (declared_body operationObject) (\<lambda>d.
       case d of None \<Rightarrow> Inr (body_none, k)
               | Some (mimeType, bodySchema) \<Rightarrow> openapi_fill_body g mimeType bodySchema k)"
proof (cases "get_prop operationObject ''requestBody''")
  case (Inl e)
  then show ?thesis by (simp add: openapi_body_def declared_body_def)
next
  case (Inr requestBody)
  let ?content = "lodash_get operationObject [''requestBody'', ''content''] (JObj [])"
  show ?thesis
  proof (cases "truthy requestBody")
    case False
    with Inr show ?thesis by (simp add: openapi_body_def declared_body_def)
  next
    case True
    show ?thesis
    proof (cases "first_key ?content")
      case (Inl e)
      with Inr True show ?thesis by (simp add: openapi_body_def declared_body_def)
    next
      case mt: (Inr mimeType)
      show ?thesis
      proof (cases "get_prop ?content (toString mimeType)")
        case (Inl e)
        with Inr True mt show ?thesis by (simp add: openapi_body_def declared_body_def)
      next
        case b: (Inr b)
        show ?thesis
          using Inr True mt b
          by (cases "get_prop (js_or b (JObj [])) ''schema''")
            (simp_all add: openapi_body_def declared_body_def)
      qed
    qed
  qed
qed

lemma openapi_fill_body_object:
  "object_schema s \<Longrightarrow>
   openapi_fill_body g mimeType s k =
     (if mimeType = JStr ''application/json'' then
        and_then (buildEmptyJsonBody s) (\<lambda>jsonBody.
          Inr (obj_set (obj_set body_none ''mode'' (JStr ''json''))
                 ''json'' (JStr (stringify [] jsonBody)), k))
      else if mimeType = JStr ''application/x-www-form-urlencoded'' then
        and_then (get_prop s ''properties'') (\<lambda>properties.
        and_then (schema_fields g (each_entries (js_or properties (JObj []))) k) (\<lambda>(flds, n1).
          Inr (obj_set (obj_set body_none ''mode'' (JStr ''formUrlEncoded''))
                 ''formUrlEncoded'' (JArr flds), n1)))
      else if mimeType = JStr ''multipart/form-data'' then
        and_then (get_prop s ''properties'') (\<lambda>properties.
        and_then (schema_fields g (each_entries (js_or properties (JObj []))) k) (\<lambda>(flds, n1).
          Inr (obj_set (obj_set body_none ''mode'' (JStr ''multipartForm''))
                 ''multipartForm'' (JArr flds), n1)))
      else if mimeType = JStr ''text/plain'' then
        Inr (obj_set (obj_set body_none ''mode'' (JStr ''text'')) ''text'' (JStr []), k)
      else if mimeType = JStr ''text/xml'' then
        Inr (obj_set (obj_set body_none ''mode'' (JStr ''xml'')) ''xml'' (JStr []), k)
      else Inr (body_none, k))"
  by (simp add: openapi_fill_body_def object_schema_def)

lemma openapi_fill_body_other:
  "\<not> object_schema s \<Longrightarrow> openapi_fill_body g mimeType s k = Inr (b, n') \<Longrightarrow>
   b = (if mimeType = JStr ''application/json'' then obj_set body_none ''mode'' (JStr ''json'')
        else if mimeType = JStr ''application/x-www-form-urlencoded''
        then obj_set body_none ''mode'' (JStr ''formUrlEncoded'')
        else if mimeType = JStr ''multipart/form-data''
        then obj_set body_none ''mode'' (JStr ''multipartForm'')
        else if mimeType = JStr ''text/plain''
        then obj_set (obj_set body_none ''mode'' (JStr ''text'')) ''text'' (JStr [])
        else if mimeType = JStr ''text/xml''
        then obj_set (obj_set body_none ''mode'' (JStr ''xml'')) ''xml'' (JStr [])
        else body_none)"
  by (auto simp: openapi_fill_body_def object_schema_def and_then_eq_Inr Let_def split: if_splits)

lemma v1_body_spec:
  assumes "createBrunoRequest_v1 g method baseUri path properties dmt n = Inr (item, n')"
  shows "(\<exists>body. body_of item = JObj body \<and> payload_ok body)
    \<and> (get_prop properties ''body'' = Inr b \<and> \<not> truthy b \<longrightarrow> body_of item = JObj body_none)
    \<and> (get_prop properties ''body'' = Inr b \<and> truthy b \<and> raml_mediaType b dmt = Inr mt
        \<and> \<not> truthy mt \<longrightarrow> body_of item = JObj body_none)
    \<and> (get_prop properties ''body'' = Inr b \<and> truthy b \<and> raml_mediaType b dmt = Inr mt
        \<and> truthy mt \<and> map_of bodyModeMapping (toString mt) = Some m \<longrightarrow>
          mode_of (body_of item) = JStr m
        \<and> (m \<noteq> ''multipartForm'' \<and> m \<noteq> ''formUrlEncoded'' \<and> get_prop b ''example'' = Inr dflt \<longrightarrow>
             payload_of (body_of item) =
               js_or (lodash_get properties [''body'', ''mediaType'', ''example''] dflt) (JStr []))
        \<and> ((m = ''multipartForm'' \<or> m = ''formUrlEncoded'') \<and> get_prop b ''properties'' = Inr dflt'
            \<and> entries (js_or (lodash_get properties [''body'', ''mediaType'', ''properties''] dflt')
                        (JObj [])) = Inr fs \<longrightarrow>
             names_of (payload_of (body_of item)) = map (\<lambda>(name, p). JStr name) fs))"
proof -
  from assms obtain k body where rb: "raml_body g properties dmt k = Inr (body, n')"
    and item: "body_of item = JObj body"
    by (rule v1_item_body)
  have "payload_ok body" using rb by (rule raml_body_payload)
  with item have ok: "\<exists>body. body_of item = JObj body \<and> payload_ok body" by blast
  have none1: "body_of item = JObj body_none" if "get_prop properties ''body'' = Inr b" "\<not> truthy b"
    using raml_body_absent [OF rb that(1)] that(2) item by simp
  have none2: "body_of item = JObj body_none"
    if "get_prop properties ''body'' = Inr b" "raml_mediaType b dmt = Inr mt" "\<not> truthy mt"
    using raml_body_absent [OF rb that(1)] that(2,3) item by blast
  have md: "mode_of (body_of item) = JStr m"
    if p: "get_prop properties ''body'' = Inr b" "truthy b" "raml_mediaType b dmt = Inr mt"
      "truthy mt" "map_of bodyModeMapping (toString mt) = Some m"
  proof (cases "m = ''multipartForm'' \<or> m = ''formUrlEncoded''")
    case True
    from p(2) obtain d where d: "get_prop b ''properties'' = Inr d"
      by (cases b) auto
    have "\<exists>fs. entries (js_or (lodash_get properties [''body'', ''mediaType'', ''properties''] d)
        (JObj [])) = Inr fs"
      using rb p True d
      by (auto simp: raml_body_def raml_fill_body_def and_then_eq_Inr Let_def)
    then obtain fs where "entries (js_or (lodash_get properties
        [''body'', ''mediaType'', ''properties''] d) (JObj [])) = Inr fs" ..
    from raml_body_form(1) [OF rb p True d this] item show ?thesis by simp
  next
    case False
    from p(2) obtain d where d: "get_prop b ''example'' = Inr d"
      by (cases b) auto
    from False raml_body_example(1) [OF rb p _ _ d] item show ?thesis by simp
  qed
  have ex: "payload_of (body_of item) =
      js_or (lodash_get properties [''body'', ''mediaType'', ''example''] dflt) (JStr [])"
    if "get_prop properties ''body'' = Inr b" "truthy b" "raml_mediaType b dmt = Inr mt"
      "truthy mt" "map_of bodyModeMapping (toString mt) = Some m"
      "m \<noteq> ''multipartForm''" "m \<noteq> ''formUrlEncoded''" "get_prop b ''example'' = Inr dflt"
    using raml_body_example(2) [OF rb that] item by simp
  have fm: "names_of (payload_of (body_of item)) = map (\<lambda>(name, p). JStr name) fs"
    if "get_prop properties ''body'' = Inr b" "truthy b" "raml_mediaType b dmt = Inr mt"
      "truthy mt" "map_of bodyModeMapping (toString mt) = Some m"
      "m = ''multipartForm'' \<or> m = ''formUrlEncoded''" "get_prop b ''properties'' = Inr dflt'"
      "entries (js_or (lodash_get properties [''body'', ''mediaType'', ''properties''] dflt')
         (JObj [])) = Inr fs"
    using raml_body_form(2) [OF rb that] item by simp
  from ok none1 none2 md ex fm show ?thesis by blast
qed

lemma openapi_filled:
  assumes "openapi_body g operationObject k = Inr (body, n')"
    and "declared_body operationObject = Inr (Some (mimeType, s))"
  shows "openapi_fill_body g mimeType s k = Inr (body, n')"
  using assms by (simp add: openapi_body_declared)

lemma openapi_body_spec:
  assumes "transformOpenapiRequestItem g request n = Inr (item, n')"
  shows "(\<exists>body. body_of item = JObj body \<and> payload_ok body)
    \<and> (declared_body (rq_operationObject request) = Inr None \<longrightarrow> body_of item = JObj body_none)
    \<and> (declared_body (rq_operationObject request) = Inr (Some (mimeType, s)) \<longrightarrow>
         (mimeType = JStr ''application/json'' \<longrightarrow>
            mode_of (body_of item) = JStr ''json''
          \<and> (object_schema s \<and> buildEmptyJsonBody s = Inr skeleton \<longrightarrow>
               payload_of (body_of item) = JStr (stringify [] skeleton))
          \<and> (\<not> object_schema s \<longrightarrow> payload_of (body_of item) = JNull))
       \<and> (mimeType = JStr ''application/x-www-form-urlencoded'' \<longrightarrow>
            mode_of (body_of item) = JStr ''formUrlEncoded''
          \<and> (object_schema s \<and> get_prop s ''properties'' = Inr ps \<longrightarrow>
               names_of (payload_of (body_of item)) = map fst (each_entries (js_or ps (JObj []))))
          \<and> (\<not> object_schema s \<longrightarrow> payload_of (body_of item) = JArr []))
       \<and> (mimeType = JStr ''multipart/form-data'' \<longrightarrow>
            mode_of (body_of item) = JStr ''multipartForm''
          \<and> (object_schema s \<and> get_prop s ''properties'' = Inr ps \<longrightarrow>
               names_of (payload_of (body_of item)) = map fst (each_entries (js_or ps (JObj []))))
          \<and> (\<not> object_schema s \<longrightarrow> payload_of (body_of item) = JArr []))
       \<and> (mimeType = JStr ''text/plain'' \<longrightarrow>
            mode_of (body_of item) = JStr ''text'' \<and> payload_of (body_of item) = JStr [])
       \<and> (mimeType = JStr ''text/xml'' \<longrightarrow>
            mode_of (body_of item) = JStr ''xml'' \<and> payload_of (body_of item) = JStr [])
       \<and> (mimeType \<noteq> JStr ''application/json''
          \<and> mimeType \<noteq> JStr ''application/x-www-form-urlencoded''
          \<and> mimeType \<noteq> JStr ''multipart/form-data''
          \<and> mimeType \<noteq> JStr ''text/plain'' \<and> mimeType \<noteq> JStr ''text/xml'' \<longrightarrow>
            body_of item = JObj body_none))"
proof -
  from assms obtain k body where ob: "openapi_body g (rq_operationObject request) k = Inr (body, n')"
    and item: "body_of item = JObj body"
    by (rule openapi_item_body)
  have "payload_ok body" using ob by (rule openapi_body_payload)
  with item have ok: "\<exists>body. body_of item = JObj body \<and> payload_ok body" by blast
  have none: "body_of item = JObj body_none" if "declared_body (rq_operationObject request) = Inr None"
    using ob that item by (simp add: openapi_body_declared)
  have neutral: "field (JObj body_none) ''json'' = JNull"
    "field (JObj body_none) ''formUrlEncoded'' = JArr []"
    "field (JObj body_none) ''multipartForm'' = JArr []"
    by (simp_all add: field_def body_none_def)
  have pf: "''json'' \<in> set payload_fields" "''formUrlEncoded'' \<in> set payload_fields"
    "''multipartForm'' \<in> set payload_fields"
    by (simp_all add: payload_fields_def)
  {
    assume d: "declared_body (rq_operationObject request) = Inr (Some (mimeType, s))"
    note fill = openapi_filled [OF ob d]
    {
      assume mt: "mimeType = JStr ''application/json''"
      have m: "mode_of (body_of item) = JStr ''json''"
        using fill mt item
        by (cases "object_schema s")
          (auto simp: openapi_fill_body_object and_then_eq_Inr field_body_set
            field_body_mode [OF pf(1)] dest!: openapi_fill_body_other)
      have p1: "payload_of (body_of item) = JStr (stringify [] skeleton)"
        if "object_schema s" "buildEmptyJsonBody s = Inr skeleton"
        using fill mt item that by (auto simp: openapi_fill_body_object field_body_set)
      have p2: "payload_of (body_of item) = JNull" if "\<not> object_schema s"
        using openapi_fill_body_other [OF that fill] mt item
        by (simp add: field_body_mode [OF pf(1)] neutral)
      note m p1 p2
    }
    note json = this
    {
      assume mt: "mimeType = JStr ''application/x-www-form-urlencoded''"
      have m: "mode_of (body_of item) = JStr ''formUrlEncoded''"
        using fill mt item
        by (cases "object_schema s")
          (auto simp: openapi_fill_body_object and_then_eq_Inr field_body_set
            field_body_mode [OF pf(2)] dest!: openapi_fill_body_other)
      have p1: "names_of (payload_of (body_of item)) = map fst (each_entries (js_or ps (JObj [])))"
        if "object_schema s" "get_prop s ''properties'' = Inr ps"
        using fill mt item that
        by (auto simp: openapi_fill_body_object and_then_eq_Inr field_body_set names_of_def
            dest: schema_fields_names)
      have p2: "payload_of (body_of item) = JArr []" if "\<not> object_schema s"
        using openapi_fill_body_other [OF that fill] mt item
        by (simp add: field_body_mode [OF pf(2)] neutral)
      note m p1 p2
    }
    note urlenc = this
    {
      assume mt: "mimeType = JStr ''multipart/form-data''"
      have m: "mode_of (body_of item) = JStr ''multipartForm''"
        using fill mt item
        by (cases "object_schema s")
          (auto simp: openapi_fill_body_object and_then_eq_Inr field_body_set
            field_body_mode [OF pf(3)] dest!: openapi_fill_body_other)
      have p1: "names_of (payload_of (body_of item)) = map fst (each_entries (js_or ps (JObj [])))"
        if "object_schema s" "get_prop s ''properties'' = Inr ps"
        using fill mt item that
        by (auto simp: openapi_fill_body_object and_then_eq_Inr field_body_set names_of_def
            dest: schema_fields_names)
      have p2: "payload_of (body_of item) = JArr []" if "\<not> object_schema s"
        using openapi_fill_body_other [OF that fill] mt item
        by (simp add: field_body_mode [OF pf(3)] neutral)
      note m p1 p2
    }
    note multi = this
    {
      assume mt: "mimeType = JStr ''text/plain''"
      have "mode_of (body_of item) = JStr ''text'' \<and> payload_of (body_of item) = JStr []"
        using fill mt item
        by (cases "object_schema s")
          (auto simp: openapi_fill_body_object field_body_set dest!: openapi_fill_body_other)
    }
    note plain = this
    {
      assume mt: "mimeType = JStr ''text/xml''"
      have "mode_of (body_of item) = JStr ''xml'' \<and> payload_of (body_of item) = JStr []"
        using fill mt item
        by (cases "object_schema s")
          (auto simp: openapi_fill_body_object field_body_set dest!: openapi_fill_body_other)
    }
    note xml = this
    {
      assume mt: "mimeType \<noteq> JStr ''application/json''
          \<and> mimeType \<noteq> JStr ''application/x-www-form-urlencoded''
          \<and> mimeType \<noteq> JStr ''multipart/form-data''
          \<and> mimeType \<noteq> JStr ''text/plain'' \<and> mimeType \<noteq> JStr ''text/xml''"
      have "body_of item = JObj body_none"
        using fill mt item
        by (cases "object_schema s")
          (auto simp: openapi_fill_body_object dest!: openapi_fill_body_other)
    }
    note other = this
    note json urlenc multi plain xml other
  }
  note filled = this
  show ?thesis
    by (intro conjI impI) (simp_all add: ok none filled)
qed

section \<open>Properties\<close>

subsection \<open>RAML nesting\<close>

text \<open>
  C4. Importing the resource tree \<^verbatim>\<open>{ "/pets": { "get": {}, "/{id}": { "get": {} } } }\<close>
  yields one top-level folder holding one request item (\<^verbatim>\<open>GET\<close> of \<^verbatim>\<open>{{baseUri}}/pets\<close>)
  and one nested folder, which holds one request item (\<^verbatim>\<open>GET\<close> of
  \<^verbatim>\<open>{{baseUri}}/pets/{{id}}\<close>) whose \<^verbatim>\<open>vars.req\<close> has exactly one entry, named
  \<^verbatim>\<open>{{id}}\<close>. The folders are named \<^verbatim>\<open>" pets"\<close> and \<^verbatim>\<open>" {id}"\<close>, with the leading space
  that \<^verbatim>\<open>createBrunoFolder\<close> puts in place of the slash and does not trim, where
  \<^verbatim>\<open>buildApiName\<close> trims.
\<close>

theorem raml_nesting_pets:
  "parseRamlCollection g pets_tree 0 =
     Inr (JObj
       [(''name'', JStr []), (''uid'', JStr (g 0)), (''version'', JStr ''1''),
        (''items'', JArr
          [JObj
            [(''uid'', JStr (g 1)), (''name'', JStr '' pets''), (''type'', JStr ''folder''),
             (''items'', JArr
               [JObj
                 [(''uid'', JStr (g 2)), (''name'', JStr ''GET pets''),
                  (''type'', JStr ''http-request''),
                  (''request'', JObj
                    [(''url'', JStr ''{{baseUri}}/pets''), (''method'', JStr ''GET''),
                     (''auth'', JObj [(''mode'', JStr ''none''), (''basic'', JNull),
                                      (''bearer'', JNull), (''digest'', JNull)]),
                     (''headers'', JArr []), (''params'', JArr []),
                     (''vars'', JObj [(''req'', JArr [])]),
                     (''body'', JObj [(''mode'', JStr ''none''), (''json'', JNull),
                                      (''text'', JNull), (''xml'', JNull),
                                      (''formUrlEncoded'', JArr []), (''multipartForm'', JArr [])]),
                     (''docs'', JStr [])])],
                JObj
                 [(''uid'', JStr (g 3)), (''name'', JStr '' {id}''), (''type'', JStr ''folder''),
                  (''items'', JArr
                    [JObj
                      [(''uid'', JStr (g 4)), (''name'', JStr ''GET pets   id''),
                       (''type'', JStr ''http-request''),
                       (''request'', JObj
                         [(''url'', JStr ''{{baseUri}}/pets/{{id}}''), (''method'', JStr ''GET''),
                          (''auth'', JObj [(''mode'', JStr ''none''), (''basic'', JNull),
                                           (''bearer'', JNull), (''digest'', JNull)]),
                          (''headers'', JArr []), (''params'', JArr []),
                          (''vars'', JObj [(''req'', JArr
                             [JObj [(''uid'', JStr (g 5)), (''name'', JStr ''{{id}}''),
                                    (''value'', JStr []), (''local'', JBool False),
                                    (''enabled'', JBool True)]])]),
                          (''body'', JObj [(''mode'', JStr ''none''), (''json'', JNull),
                                           (''text'', JNull), (''xml'', JNull),
                                           (''formUrlEncoded'', JArr []),
                                           (''multipartForm'', JArr [])]),
                          (''docs'', JStr [])])]])]])]]),
        (''environments'', JArr [])], 6)"
  by (simp add: raml_eval pets_tree_def eval_nat_numeral)

subsection \<open>Null and non-object resources\<close>




subsection \<open>Distinct uids\<close>

text \<open>
  C3. When the uid generator never returns the same value for two different calls, the
  uids of a collection that \<^verbatim>\<open>parseRamlCollection\<close> resolves with are pairwise distinct:
  the uid of the collection, of every folder and request item at any depth, and of every
  header, query parameter, request variable and form field of every request. Each of them
  is the result of one of the calls made during this one parse, the calls number \<open>n\<close> to
  \<open>n' - 1\<close>. This holds for both revisions of the importer; only the earlier one builds
  form fields.
\<close>

theorem uids_pairwise_distinct:
  assumes "inj g"
  shows "(parseRamlCollection g data n = Inr (c, n') \<longrightarrow>
            distinct (uids_collection c)
          \<and> set (uids_collection c) \<subseteq> (\<lambda>i. JStr (g i)) ` {n..<n'})
       \<and> (parseRamlCollection_v1 g data1 n1 = Inr (c1, n1') \<longrightarrow>
            distinct (uids_collection c1)
          \<and> set (uids_collection c1) \<subseteq> (\<lambda>i. JStr (g i)) ` {n1..<n1'})"
proof (intro conjI impI)
  assume "parseRamlCollection g data n = Inr (c, n')"
  then have later: "fresh g n n' (uids_collection c)"
    by (rule parseRamlCollection_fresh)
  from assms later show "distinct (uids_collection c)"
    by (rule fresh_distinct)
  from later show "set (uids_collection c) \<subseteq> (\<lambda>i. JStr (g i)) ` {n..<n'}"
    by (rule fresh_calls)
next
  assume "parseRamlCollection_v1 g data1 n1 = Inr (c1, n1')"
  then have earlier: "fresh g n1 n1' (uids_collection c1)"
    by (rule parseRamlCollection_v1_fresh)
  from assms earlier show "distinct (uids_collection c1)"
    by (rule fresh_distinct)
  from earlier show "set (uids_collection c1) \<subseteq> (\<lambda>i. JStr (g i)) ` {n1..<n1'}"
    by (rule fresh_calls)
qed

theorem uids_pairwise_distinct_witness:
  "inj tally
   \<and> parseRamlCollection tally orders_tree 0 = Inr (orders_collection, 8)
   \<and> uids_collection orders_collection = map (\<lambda>i. JStr (tally i)) [0, 1, 2, 4, 3, 5, 6, 7]
   \<and> distinct (uids_collection orders_collection)
   \<and> set (uids_collection orders_collection) \<subseteq> (\<lambda>i. JStr (tally i)) ` {0..<8}
   \<and> parseRamlCollection_v1 tally signup_tree 0 = Inr (signup_collection, 5)
   \<and> uids_collection signup_collection = map (\<lambda>i. JStr (tally i)) [0, 1, 2, 3, 4]
   \<and> distinct (uids_collection signup_collection)
   \<and> set (uids_collection signup_collection) \<subseteq> (\<lambda>i. JStr (tally i)) ` {0..<5}"
proof -
  have later: "parseRamlCollection tally orders_tree 0 = Inr (orders_collection, 8)"
    by (simp add: raml_eval orders_tree_def orders_collection_def eval_nat_numeral)
  have earlier: "parseRamlCollection_v1 tally signup_tree 0 = Inr (signup_collection, 5)"
    by (simp add: parseRamlCollection_v1_def transformRamlNode_v1.simps v1_eval raml_eval
        signup_tree_def signup_collection_def eval_nat_numeral)
  have us: "uids_collection orders_collection = map (\<lambda>i. JStr (tally i)) [0, 1, 2, 4, 3, 5, 6, 7]"
    "uids_collection signup_collection = map (\<lambda>i. JStr (tally i)) [0, 1, 2, 3, 4]"
    by (simp_all add: orders_collection_def signup_collection_def uids_collection_def
        uids_item.simps uids_request_def uids_fields_def field_def body_none_def)
  from uids_pairwise_distinct [OF inj_tally, of orders_tree 0 orders_collection 8
      signup_tree 0 signup_collection 5] inj_tally later earlier us
  show ?thesis by blast
qed

subsection \<open>Shape of the request object\<close>




subsection \<open>Mode and payload of a body\<close>

text \<open>
  C2, as the code has it. In every body attached to a produced request, each payload
  field (\<^verbatim>\<open>json\<close>, \<^verbatim>\<open>text\<close>, \<^verbatim>\<open>xml\<close>, \<^verbatim>\<open>formUrlEncoded\<close>, \<^verbatim>\<open>multipartForm\<close>) other than
  the one the mode names holds its initial value (\<^verbatim>\<open>null\<close> or \<^verbatim>\<open>[]\<close>), and the field the
  mode names holds what the source declares, which may be nothing.

  Earlier revision of \<^verbatim>\<open>createBrunoRequest\<close>: without a body, or without a media type,
  the body is the initial one. With a body whose media type the table maps to the mode
  \<open>m\<close>, the mode is \<open>m\<close>; for \<^verbatim>\<open>json\<close>, \<^verbatim>\<open>text\<close> and \<^verbatim>\<open>xml\<close> the payload is the example of the
  body, or \<^verbatim>\<open>''\<close> when there is none; for the two forms the payload has one field for
  each declared property, in order and with its name.

  \<^verbatim>\<open>transformOpenapiRequestItem\<close>: without a request body the body is the initial one.
  Otherwise the first media type of the content decides: \<^verbatim>\<open>application/json\<close> gives the
  mode \<^verbatim>\<open>json\<close> with the printed skeleton of an object schema, and \<^verbatim>\<open>null\<close> for any other
  schema; the two form types give the form modes with one field for each property of an
  object schema, and \<^verbatim>\<open>[]\<close> for any other schema; \<^verbatim>\<open>text/plain\<close> and \<^verbatim>\<open>text/xml\<close> give
  the modes \<^verbatim>\<open>text\<close> and \<^verbatim>\<open>xml\<close> with the payload \<^verbatim>\<open>''\<close>; any other media type leaves the
  initial body.

  The later revision of \<^verbatim>\<open>createBrunoRequest\<close> never changes the initial body.
\<close>

theorem body_payload_pairing:
  "(createBrunoRequest_v1 g verb baseUri path properties dmt n = Inr (item, n') \<longrightarrow>
      (\<exists>body. body_of item = JObj body \<and> payload_ok body)
    \<and> (get_prop properties ''body'' = Inr b \<and> \<not> truthy b \<longrightarrow> body_of item = JObj body_none)
    \<and> (get_prop properties ''body'' = Inr b \<and> truthy b \<and> raml_mediaType b dmt = Inr mt
        \<and> \<not> truthy mt \<longrightarrow> body_of item = JObj body_none)
    \<and> (get_prop properties ''body'' = Inr b \<and> truthy b \<and> raml_mediaType b dmt = Inr mt
        \<and> truthy mt \<and> map_of bodyModeMapping (toString mt) = Some m \<longrightarrow>
          mode_of (body_of item) = JStr m
        \<and> (m \<noteq> ''multipartForm'' \<and> m \<noteq> ''formUrlEncoded'' \<and> get_prop b ''example'' = Inr dflt \<longrightarrow>
             payload_of (body_of item) =
               js_or (lodash_get properties [''body'', ''mediaType'', ''example''] dflt) (JStr []))
        \<and> ((m = ''multipartForm'' \<or> m = ''formUrlEncoded'') \<and> get_prop b ''properties'' = Inr dflt'
            \<and> entries (js_or (lodash_get properties [''body'', ''mediaType'', ''properties''] dflt')
                        (JObj [])) = Inr fs \<longrightarrow>
             names_of (payload_of (body_of item)) = map (\<lambda>(name, p). JStr name) fs)))
   \<and> (transformOpenapiRequestItem g request n1 = Inr (item1, n1') \<longrightarrow>
      (\<exists>body. body_of item1 = JObj body \<and> payload_ok body)
    \<and> (declared_body (rq_operationObject request) = Inr None \<longrightarrow> body_of item1 = JObj body_none)
    \<and> (declared_body (rq_operationObject request) = Inr (Some (mimeType, s)) \<longrightarrow>
         (mimeType = JStr ''application/json'' \<longrightarrow>
            mode_of (body_of item1) = JStr ''json''
          \<and> (object_schema s \<and> buildEmptyJsonBody s = Inr skeleton \<longrightarrow>
               payload_of (body_of item1) = JStr (stringify [] skeleton))
          \<and> (\<not> object_schema s \<longrightarrow> payload_of (body_of item1) = JNull))
       \<and> (mimeType = JStr ''application/x-www-form-urlencoded'' \<longrightarrow>
            mode_of (body_of item1) = JStr ''formUrlEncoded''
          \<and> (object_schema s \<and> get_prop s ''properties'' = Inr ps \<longrightarrow>
               names_of (payload_of (body_of item1)) = map fst (each_entries (js_or ps (JObj []))))
          \<and> (\<not> object_schema s \<longrightarrow> payload_of (body_of item1) = JArr []))
       \<and> (mimeType = JStr ''multipart/form-data'' \<longrightarrow>
            mode_of (body_of item1) = JStr ''multipartForm''
          \<and> (object_schema s \<and> get_prop s ''properties'' = Inr ps \<longrightarrow>
               names_of (payload_of (body_of item1)) = map fst (each_entries (js_or ps (JObj []))))
          \<and> (\<not> object_schema s \<longrightarrow> payload_of (body_of item1) = JArr []))
       \<and> (mimeType = JStr ''text/plain'' \<longrightarrow>
            mode_of (body_of item1) = JStr ''text'' \<and> payload_of (body_of item1) = JStr [])
       \<and> (mimeType = JStr ''text/xml'' \<longrightarrow>
            mode_of (body_of item1) = JStr ''xml'' \<and> payload_of (body_of item1) = JStr [])
       \<and> (mimeType \<noteq> JStr ''application/json''
          \<and> mimeType \<noteq> JStr ''application/x-www-form-urlencoded''
          \<and> mimeType \<noteq> JStr ''multipart/form-data''
          \<and> mimeType \<noteq> JStr ''text/plain'' \<and> mimeType \<noteq> JStr ''text/xml'' \<longrightarrow>
            body_of item1 = JObj body_none)))
   \<and> (createBrunoRequest g method2 baseUri2 path2 properties2 n2 = Inr (item2, n2') \<longrightarrow>
      body_of item2 = JObj body_none)"
  by (rule conjI [OF impI [OF v1_body_spec] conjI [OF impI [OF openapi_body_spec] impI [OF body_of_v2]]])

theorem body_payload_pairing_witness:
  "(\<exists>item n'. createBrunoRequest_v1 show_nat ''post'' (JStr ''{{baseUri}}'') ''/pets''
                 json_example_operation JUndef 0 = Inr (item, n')
      \<and> (\<exists>body. body_of item = JObj body \<and> payload_ok body)
      \<and> mode_of (body_of item) = JStr ''json'' \<and> payload_of (body_of item) = JStr ''{}'')
   \<and> (\<exists>item n'. createBrunoRequest_v1 show_nat ''post'' (JStr ''{{baseUri}}'') ''/pets''
                 form_operation JUndef 0 = Inr (item, n')
      \<and> (\<exists>body. body_of item = JObj body \<and> payload_ok body)
      \<and> mode_of (body_of item) = JStr ''multipartForm''
      \<and> names_of (payload_of (body_of item)) = [JStr ''name'', JStr ''photo''])
   \<and> (\<exists>item n'. transformOpenapiRequestItem show_nat text_request 0 = Inr (item, n')
      \<and> (\<exists>body. body_of item = JObj body \<and> payload_ok body)
      \<and> mode_of (body_of item) = JStr ''text'' \<and> payload_of (body_of item) = JStr [])
   \<and> (\<exists>item n'. transformOpenapiRequestItem show_nat json_schema_request 0 = Inr (item, n')
      \<and> (\<exists>body. body_of item = JObj body \<and> payload_ok body)
      \<and> mode_of (body_of item) = JStr ''json''
      \<and> payload_of (body_of item) =
           JStr (stringify [] (JObj [(''name'', JStr []), (''tags'', JArr [])])))
   \<and> (\<exists>item n'. createBrunoRequest show_nat ''get'' (JStr ''{{baseUri}}'') ''/pets'' (JObj []) 0 = Inr (item, n')
      \<and> body_of item = JObj body_none)"
proof -
  let ?rb = "JObj [(''application/json'', JObj []), (''example'', JStr ''{}'')]"
  let ?fb = "JObj [(''multipart/form-data'', JObj []),
                   (''properties'', JObj [(''name'', JObj []), (''photo'', JObj [])])]"
  let ?schema = "JObj [(''type'', JStr ''object''),
                       (''properties'', JObj [(''name'', JObj [(''type'', JStr ''string'')]),
                                             (''tags'', JObj [(''type'', JStr ''array'')])])]"
  obtain i1 k1 where e1:
    "createBrunoRequest_v1 show_nat ''post'' (JStr ''{{baseUri}}'') ''/pets''
       json_example_operation JUndef 0 = Inr (i1, k1)"
    using json_example_eval by blast
  have "\<exists>i k. createBrunoRequest_v1 show_nat ''post'' (JStr ''{{baseUri}}'') ''/pets''
       form_operation JUndef 0 = Inr (i, k)"
    by (simp add: v1_eval raml_eval form_operation_def)
  then obtain i2 k2 where e2:
    "createBrunoRequest_v1 show_nat ''post'' (JStr ''{{baseUri}}'') ''/pets''
       form_operation JUndef 0 = Inr (i2, k2)"
    by blast
  obtain i3 k3 where e3: "transformOpenapiRequestItem show_nat text_request 0 = Inr (i3, k3)"
    using text_eval by blast
  have "\<exists>i k. transformOpenapiRequestItem show_nat json_schema_request 0 = Inr (i, k)"
    by (simp add: openapi_eval json_schema_request_def buildEmptyJsonBody.simps)
  then obtain i4 k4 where e4: "transformOpenapiRequestItem show_nat json_schema_request 0 = Inr (i4, k4)"
    by blast
  obtain i5 k5 where e5:
    "createBrunoRequest show_nat ''get'' (JStr ''{{baseUri}}'') ''/pets'' (JObj []) 0 = Inr (i5, k5)"
    using extractUriParameters_total createBrunoRequest_empty by metis
  have p1: "get_prop json_example_operation ''body'' = Inr ?rb" "truthy ?rb"
    "raml_mediaType ?rb JUndef = Inr (JStr ''application/json'')"
    "map_of bodyModeMapping (toString (JStr ''application/json'')) = Some ''json''"
    "get_prop ?rb ''example'' = Inr (JStr ''{}'')"
    "js_or (lodash_get json_example_operation [''body'', ''mediaType'', ''example''] (JStr ''{}''))
       (JStr []) = JStr ''{}''"
    by (simp_all add: json_example_operation_def raml_mediaType_def bodyModeMapping_def js_or_def
        lodash_get_def)
  have p2: "get_prop form_operation ''body'' = Inr ?fb" "truthy ?fb"
    "raml_mediaType ?fb JUndef = Inr (JStr ''multipart/form-data'')"
    "map_of bodyModeMapping (toString (JStr ''multipart/form-data'')) = Some ''multipartForm''"
    "get_prop ?fb ''properties'' = Inr (JObj [(''name'', JObj []), (''photo'', JObj [])])"
    "entries (js_or (lodash_get form_operation [''body'', ''mediaType'', ''properties'']
        (JObj [(''name'', JObj []), (''photo'', JObj [])])) (JObj []))
       = Inr [(''name'', JObj []), (''photo'', JObj [])]"
    by (simp_all add: form_operation_def raml_mediaType_def bodyModeMapping_def js_or_def
        lodash_get_def)
  have p3: "declared_body (rq_operationObject text_request) = Inr (Some (JStr ''text/plain'', JUndef))"
    by (simp add: declared_body_def text_request_def lodash_get_def first_key_def keys_def js_or_def)
  have p4: "declared_body (rq_operationObject json_schema_request)
        = Inr (Some (JStr ''application/json'', ?schema))"
    "object_schema ?schema"
    "buildEmptyJsonBody ?schema = Inr (JObj [(''name'', JStr []), (''tags'', JArr [])])"
    by (simp_all add: declared_body_def json_schema_request_def lodash_get_def first_key_def
        keys_def js_or_def object_schema_def buildEmptyJsonBody.simps obj_set_def
        is_array_index_def is_digit_def)
  note t1 = body_payload_pairing [where g = show_nat and verb = "''post''"
      and baseUri = "JStr ''{{baseUri}}''" and path = "''/pets''"
      and properties = json_example_operation and dmt = JUndef and n = 0 and item = i1
      and n' = k1 and b = ?rb and mt = "JStr ''application/json''" and m = "''json''"
      and dflt = "JStr ''{}''" and dflt' = JUndef and fs = "[]"
      and request = text_request and ?n1.0 = 0 and ?item1.0 = i3 and ?n1' = k3
      and mimeType = "JStr ''text/plain''" and s = JUndef and skeleton = JUndef and ps = JUndef
      and ?method2.0 = "''get''" and ?baseUri2.0 = "JStr ''{{baseUri}}''" and ?path2.0 = "''/pets''"
      and ?properties2.0 = "JObj []" and ?n2.0 = 0 and ?item2.0 = i5 and ?n2' = k5]
  note t2 = body_payload_pairing [where g = show_nat and verb = "''post''"
      and baseUri = "JStr ''{{baseUri}}''" and path = "''/pets''"
      and properties = form_operation and dmt = JUndef and n = 0 and item = i2
      and n' = k2 and b = ?fb and mt = "JStr ''multipart/form-data''" and m = "''multipartForm''"
      and dflt = JUndef and dflt' = "JObj [(''name'', JObj []), (''photo'', JObj [])]"
      and fs = "[(''name'', JObj []), (''photo'', JObj [])]"
      and request = json_schema_request and ?n1.0 = 0 and ?item1.0 = i4 and ?n1' = k4
      and mimeType = "JStr ''application/json''" and s = ?schema
      and skeleton = "JObj [(''name'', JStr []), (''tags'', JArr [])]" and ps = JUndef
      and ?method2.0 = "''get''" and ?baseUri2.0 = "JStr ''{{baseUri}}''" and ?path2.0 = "''/pets''"
      and ?properties2.0 = "JObj []" and ?n2.0 = 0 and ?item2.0 = i5 and ?n2' = k5]
  from t1 e1 e3 e5 p1 p3
  have w1: "(\<exists>body. body_of i1 = JObj body \<and> payload_ok body)
      \<and> mode_of (body_of i1) = JStr ''json'' \<and> payload_of (body_of i1) = JStr ''{}''"
    and w3: "(\<exists>body. body_of i3 = JObj body \<and> payload_ok body)
      \<and> mode_of (body_of i3) = JStr ''text'' \<and> payload_of (body_of i3) = JStr []"
    and w5: "body_of i5 = JObj body_none"
    by simp_all
  from t2 e2 e4 p2 p4
  have w2: "(\<exists>body. body_of i2 = JObj body \<and> payload_ok body)
      \<and> mode_of (body_of i2) = JStr ''multipartForm''
      \<and> names_of (payload_of (body_of i2)) = [JStr ''name'', JStr ''photo'']"
    and w4: "(\<exists>body. body_of i4 = JObj body \<and> payload_ok body)
      \<and> mode_of (body_of i4) = JStr ''json''
      \<and> payload_of (body_of i4) =
           JStr (stringify [] (JObj [(''name'', JStr []), (''tags'', JArr [])]))"
    by simp_all
  from e1 e2 e3 e4 e5 w1 w2 w3 w4 w5 show ?thesis by blast
qed

text \<open>
  The claim as stated fails at an OpenAPI operation whose request body has the content
  type \<^verbatim>\<open>text/plain\<close>: the mode is \<^verbatim>\<open>text\<close> and \<^verbatim>\<open>body.text\<close> is the empty string, so no
  payload field holds a non-default value.
\<close>

theorem openapi_text_body_is_empty:
  "transformOpenapiRequestItem show_nat text_request 0 =
     Inr (JObj [(''uid'', JStr (show_nat 0)), (''name'', JStr ''post /notes''),
                (''type'', JStr ''http-request''),
                (''request'', JObj
                   [(''url'', JStr ''https://api.example.com/notes''), (''method'', JStr ''POST''),
                    (''auth'', JObj [(''mode'', JStr ''none''), (''basic'', JNull),
                                     (''bearer'', JNull), (''digest'', JNull)]),
                    (''headers'', JArr []), (''params'', JArr []),
                    (''body'', JObj [(''mode'', JStr ''text''), (''json'', JNull),
                                     (''text'', JStr []), (''xml'', JNull),
                                     (''formUrlEncoded'', JArr []),
                                     (''multipartForm'', JArr [])])])], Suc 0)"
  by (simp add: openapi_eval text_request_def)

subsection \<open>The enabled flag of a field\<close>

text \<open>
  C9, as the code has it. The \<^verbatim>\<open>enabled\<close> property of a field built for a RAML query
  parameter, header or form-body property, or for an OpenAPI query or header parameter,
  is the value of the \<^verbatim>\<open>required\<close> property of its source, unchanged and in source order:
  the declared boolean when there is one, \<^verbatim>\<open>undefined\<close> when the source omits it. The
  header that an \<^verbatim>\<open>apiKey\<close> scheme adds and the form entries of an OpenAPI body have
  \<^verbatim>\<open>enabled: true\<close>.
\<close>

theorem enabled_is_required_value:
  "(createBrunoRequest g method baseUri path properties n = Inr (item, n') \<longrightarrow>
      declared_required properties ''queryParameters'' = Inr (enabled_of (request_field item ''params''))
    \<and> declared_required properties ''headers'' = Inr (enabled_of (request_field item ''headers'')))
   \<and> (createBrunoRequest_v1 g method1 baseUri1 path1 properties1 mediaType1 n1 = Inr (item1, n1') \<longrightarrow>
      declared_required properties1 ''queryParameters'' = Inr (enabled_of (request_field item1 ''params''))
    \<and> declared_required properties1 ''headers'' = Inr (enabled_of (request_field item1 ''headers'')))
   \<and> (body_fields g kvs n2 = Inr (flds, n2') \<longrightarrow>
      traverse (\<lambda>(name, p). get_prop p ''required'') kvs = Inr (map (\<lambda>f. field f ''enabled'') flds))
   \<and> (transformOpenapiRequestItem g request n3 = Inr (item3, n3') \<longrightarrow>
      parameters_required ''query'' (rq_operationObject request)
        = Inr (enabled_of (request_field item3 ''params''))
    \<and> (\<exists>req. parameters_required ''header'' (rq_operationObject request) = Inr req
          \<and> (enabled_of (request_field item3 ''headers'') = req
             \<or> enabled_of (request_field item3 ''headers'') = req @ [JBool True]))
    \<and> list_all (\<lambda>e. e = JBool True) (form_enabled (body_of item3)))"
  by (intro conjI impI)
     (erule createBrunoRequest_enabled [THEN conjunct1] createBrunoRequest_enabled [THEN conjunct2]
        createBrunoRequest_v1_enabled [THEN conjunct1] createBrunoRequest_v1_enabled [THEN conjunct2]
        body_fields_enabled transformOpenapiRequestItem_enabled [THEN conjunct1]
        transformOpenapiRequestItem_enabled [THEN conjunct2, THEN conjunct1]
        transformOpenapiRequestItem_enabled [THEN conjunct2, THEN conjunct2])+

theorem enabled_is_required_value_witness:
  "(\<exists>item n'. createBrunoRequest show_nat ''get'' (JStr ''{{baseUri}}'') ''/pets'' declared_operation 0
                = Inr (item, n')
      \<and> declared_required declared_operation ''queryParameters'' = Inr [JBool True, JUndef]
      \<and> enabled_of (request_field item ''params'') = [JBool True, JUndef]
      \<and> declared_required declared_operation ''headers'' = Inr [JBool False]
      \<and> enabled_of (request_field item ''headers'') = [JBool False])
   \<and> (\<exists>item n'. createBrunoRequest_v1 show_nat ''get'' (JStr ''{{baseUri}}'') ''/pets''
                   declared_operation JUndef 0 = Inr (item, n')
      \<and> declared_required declared_operation ''queryParameters''
          = Inr (enabled_of (request_field item ''params'')))
   \<and> (\<exists>flds n'. body_fields show_nat [(''name'', JObj [(''required'', JBool True)])] 0 = Inr (flds, n')
      \<and> map (\<lambda>f. field f ''enabled'') flds = [JBool True])
   \<and> (\<exists>item n'. transformOpenapiRequestItem show_nat parameter_request 0 = Inr (item, n')
      \<and> parameters_required ''query'' (rq_operationObject parameter_request) = Inr [JBool True]
      \<and> enabled_of (request_field item ''params'') = [JBool True]
      \<and> list_all (\<lambda>e. e = JBool True) (form_enabled (body_of item)))"
proof -
  obtain i1 k1 where e1:
    "createBrunoRequest show_nat ''get'' (JStr ''{{baseUri}}'') ''/pets'' declared_operation 0 = Inr (i1, k1)"
    and p1: "enabled_of (request_field i1 ''params'') = [JBool True, JUndef]"
    and h1: "enabled_of (request_field i1 ''headers'') = [JBool False]"
    using declared_eval by blast
  obtain i2 k2 where e2:
    "createBrunoRequest_v1 show_nat ''get'' (JStr ''{{baseUri}}'') ''/pets'' declared_operation JUndef 0
       = Inr (i2, k2)"
    using declared_v1_eval by blast
  obtain f3 k3 where e3:
    "body_fields show_nat [(''name'', JObj [(''required'', JBool True)])] 0 = Inr (f3, k3)"
    by (simp add: body_fields_def uuid_def)
  obtain i4 k4 where e4: "transformOpenapiRequestItem show_nat parameter_request 0 = Inr (i4, k4)"
    and p4: "enabled_of (request_field i4 ''params'') = [JBool True]"
    using parameter_eval by blast
  note t = enabled_is_required_value [of show_nat "''get''" "JStr ''{{baseUri}}''" "''/pets''"
      declared_operation 0 i1 k1 "''get''" "JStr ''{{baseUri}}''" "''/pets''" declared_operation
      JUndef 0 i2 k2 "[(''name'', JObj [(''required'', JBool True)])]" 0 f3 k3 parameter_request 0 i4 k4]
  from t e1 p1 h1 have c1: "declared_required declared_operation ''queryParameters'' = Inr [JBool True, JUndef]"
    "declared_required declared_operation ''headers'' = Inr [JBool False]"
    by simp_all
  from t e2 have c2: "declared_required declared_operation ''queryParameters''
          = Inr (enabled_of (request_field i2 ''params''))"
    by blast
  from t e3 have c3: "map (\<lambda>f. field f ''enabled'') f3 = [JBool True]"
    by simp
  from t e4 p4 have c4: "parameters_required ''query'' (rq_operationObject parameter_request) = Inr [JBool True]"
    "list_all (\<lambda>e. e = JBool True) (form_enabled (body_of i4))"
    by simp_all
  show ?thesis
  proof (intro conjI)
    show "\<exists>item n'. createBrunoRequest show_nat ''get'' (JStr ''{{baseUri}}'') ''/pets'' declared_operation 0
                = Inr (item, n')
      \<and> declared_required declared_operation ''queryParameters'' = Inr [JBool True, JUndef]
      \<and> enabled_of (request_field item ''params'') = [JBool True, JUndef]
      \<and> declared_required declared_operation ''headers'' = Inr [JBool False]
      \<and> enabled_of (request_field item ''headers'') = [JBool False]"
      by (rule exI [of _ i1], rule exI [of _ k1]) (simp add: e1 p1 h1 c1)
    show "\<exists>item n'. createBrunoRequest_v1 show_nat ''get'' (JStr ''{{baseUri}}'') ''/pets''
                   declared_operation JUndef 0 = Inr (item, n')
      \<and> declared_required declared_operation ''queryParameters''
          = Inr (enabled_of (request_field item ''params''))"
      by (rule exI [of _ i2], rule exI [of _ k2]) (simp add: e2 c2)
    show "\<exists>flds n'. body_fields show_nat [(''name'', JObj [(''required'', JBool True)])] 0 = Inr (flds, n')
      \<and> map (\<lambda>f. field f ''enabled'') flds = [JBool True]"
      by (rule exI [of _ f3], rule exI [of _ k3]) (simp add: e3 c3)
    show "\<exists>item n'. transformOpenapiRequestItem show_nat parameter_request 0 = Inr (item, n')
      \<and> parameters_required ''query'' (rq_operationObject parameter_request) = Inr [JBool True]
      \<and> enabled_of (request_field item ''params'') = [JBool True]
      \<and> list_all (\<lambda>e. e = JBool True) (form_enabled (body_of item))"
      by (rule exI [of _ i4], rule exI [of _ k4]) (simp add: e4 p4 c4)
  qed
qed

text \<open>
  The claim as stated fails at the RAML operation
  \<^verbatim>\<open>get: { queryParameters: { page: {} } }\<close>: the field of \<^verbatim>\<open>page\<close> has
  \<^verbatim>\<open>enabled: undefined\<close>, which is not the boolean \<^verbatim>\<open>false\<close>.
\<close>

theorem omitted_required_gives_undefined:
  "createBrunoRequest show_nat ''get'' (JStr ''{{baseUri}}'') ''/pets'' paged_operation 0 =
     Inr (JObj [(''uid'', JStr (show_nat 0)), (''name'', JStr ''GET pets''),
                (''type'', JStr ''http-request''),
                (''request'', JObj
                   [(''url'', JStr ''{{baseUri}}/pets''), (''method'', JStr ''GET''),
                    (''auth'', JObj [(''mode'', JStr ''none''), (''basic'', JNull),
                                     (''bearer'', JNull), (''digest'', JNull)]),
                    (''headers'', JArr []),
                    (''params'', JArr [JObj [(''uid'', JStr (show_nat (Suc 0))),
                                             (''name'', JStr ''page''), (''value'', JStr []),
                                             (''description'', JStr []),
                                             (''enabled'', JUndef)]]),
                    (''vars'', JObj [(''req'', JArr [])]),
                    (''body'', JObj [(''mode'', JStr ''none''), (''json'', JNull),
                                     (''text'', JNull), (''xml'', JNull),
                                     (''formUrlEncoded'', JArr []),
                                     (''multipartForm'', JArr [])]),
                    (''docs'', JStr [])])], Suc (Suc 0))"
  by (simp add: raml_eval paged_operation_def)

subsection \<open>Resolution of local references\<close>




subsection \<open>Precedence of the operation's security scheme\<close>

text \<open>
  C6 at the input where the code departs from it. The API document declares the scheme
  \<^verbatim>\<open>basicAuth\<close> in its scheme index and no spec-wide security requirement, so
  \<^verbatim>\<open>getSecurity\<close> returns early with \<^verbatim>\<open>{ supported: [] }\<close>, an object without
  \<^verbatim>\<open>getScheme\<close>. For an operation that declares \<^verbatim>\<open>security: [{ basicAuth: [] }]\<close> the
  call \<^verbatim>\<open>request.global.security.getScheme(schemeName)\<close> then throws, and no request
  item is produced.
\<close>

theorem operation_security_without_default:
  "getSecurity operation_security_spec = Inr \<lparr>supported = [], schemes = None\<rparr>
   \<and> select_auth (secured_request \<lparr>supported = [], schemes = None\<rparr>) = Inl TypeError
   \<and> transformOpenapiRequestItem g (secured_request \<lparr>supported = [], schemes = None\<rparr>) n
       = Inl TypeError"
  by (simp add: security_eval operation_security_spec_def secured_request_def secured_operation_def
      transformOpenapiRequestItem_def select_auth_def uuid_def)

subsection \<open>Grouping by the first tag\<close>




subsection \<open>The outcome of an import\<close>




end
